(* ===== verification/Prelude.thy ===== *)
theory Prelude
  imports Main "HOL-Library.Multiset"
begin

text \<open>
  Shared vocabulary of the development: Go durations and instants, the error values that the
  packages of the program pass around, the three-way result of a call that may also panic, and
  the collections of rewrite rules that the component theories add to.

  A \<^theory_text>\<open>time.Duration\<close> is a signed 64-bit count of nanoseconds, kept here as an \<open>int\<close> with the
  wrap-around of its arithmetic written out by \<open>wrap64\<close>. A \<^theory_text>\<open>time.Time\<close> is an \<open>int\<close> count of
  nanoseconds since the zero time (1 January of year 1), so the zero value of Go is 0.
\<close>

named_theorems go_defs \<open>definitions of the Go string operations\<close>
named_theorems const_defs \<open>constants of the program\<close>
named_theorems result_simps \<open>evaluation of result values\<close>

section \<open>Time\<close>

type_synonym duration = int
type_synonym time = int

definition wrap64 :: "int \<Rightarrow> int" where
  "wrap64 x = (x + 2 ^ 63) mod 2 ^ 64 - 2 ^ 63"

abbreviation max_int64 :: int where "max_int64 \<equiv> 9223372036854775807"
abbreviation min_int64 :: int where "min_int64 \<equiv> - 9223372036854775808"

definition millisecond :: duration where "millisecond = 1000000"
definition second :: duration where "second = 1000000000"
definition minute :: duration where "minute = 60000000000"
definition hour :: duration where "hour = 3600000000000"

lemmas duration_units [const_defs] = millisecond_def second_def minute_def hour_def

text \<open>
  \<open>t.Sub(u)\<close> saturates at the largest and smallest duration; \<open>time.Since\<close> is \<open>Sub\<close> from now.
\<close>

definition time_sub :: "time \<Rightarrow> time \<Rightarrow> duration" where
  "time_sub t u = max min_int64 (min max_int64 (t - u))"

definition milliseconds :: "duration \<Rightarrow> int" where
  "milliseconds d = sgn d * (\<bar>d\<bar> div 1000000)"

lemma wrap64_id: "min_int64 \<le> x \<Longrightarrow> x \<le> max_int64 \<Longrightarrow> wrap64 x = x"
  by (simp add: wrap64_def)

lemma wrap64_multiple: "wrap64 (2 ^ 64 * m) = 0"
proof -
  have "(2 ^ 64 * m + 2 ^ 63) mod 2 ^ 64 = (2 ^ 63 :: int)"
    by (simp only: mod_mult_self4) simp
  then show ?thesis by (simp add: wrap64_def)
qed

lemma wrap64_range: "min_int64 \<le> wrap64 x \<and> wrap64 x \<le> max_int64"
proof -
  have "0 \<le> (x + 2 ^ 63) mod 2 ^ 64" and "(x + 2 ^ 63) mod 2 ^ 64 < 2 ^ 64"
    by simp_all
  then show ?thesis by (simp add: wrap64_def)
qed

section \<open>Errors and results\<close>

text \<open>
  Why \<open>domainname.Parse\<close> and \<open>NormalizeTLD\<close> reject an input: the branches that wrap
  \<open>ErrInvalid\<close>.
\<close>

datatype invalid_kind =
    EmptyInput
  | NoHost
  | IdnaFailed
  | NoTLD
  | NameTooLong
  | InvalidLabel
  | IsPublicSuffix
  | EmptyTLD

text \<open>
  Error values. \<open>Wrapped\<close> is \<^theory_text>\<open>fmt.Errorf\<close> with a \<open>%w\<close> verb, \<open>Failure\<close> an error whose dynamic
  type the program never inspects, \<open>ContextErr\<close> what \<open>ctx.Err()\<close> returns. The rendered text of an
  error is not modelled: where the code stores \<open>err.Error()\<close> the model stores the error.
\<close>

datatype go_error =
    ErrInvalid invalid_kind
  | ErrRateLimited string int duration
  | ErrCircuitOpen string time
  | RetryableError go_error
  | ContextErr
  | Failure string
  | Wrapped string go_error

text \<open>\<open>errors.As\<close> walks the chain of \<open>Unwrap\<close> calls.\<close>

fun error_chain :: "go_error \<Rightarrow> go_error list" where
  "error_chain (RetryableError e) = RetryableError e # error_chain e"
| "error_chain (Wrapped m e) = Wrapped m e # error_chain e"
| "error_chain e = [e]"

definition as_rate_limited :: "go_error \<Rightarrow> bool" where
  "as_rate_limited e = list_ex (\<lambda>x. case x of ErrRateLimited _ _ _ \<Rightarrow> True | _ \<Rightarrow> False) (error_chain e)"

definition as_circuit_open :: "go_error \<Rightarrow> bool" where
  "as_circuit_open e = list_ex (\<lambda>x. case x of ErrCircuitOpen _ _ \<Rightarrow> True | _ \<Rightarrow> False) (error_chain e)"

definition as_retryable :: "go_error \<Rightarrow> bool" where
  "as_retryable e = list_ex (\<lambda>x. case x of RetryableError _ \<Rightarrow> True | _ \<Rightarrow> False) (error_chain e)"

lemma as_rate_limited_simps [simp]:
  "as_rate_limited (ErrInvalid k) = False"
  "as_rate_limited (ErrRateLimited h s d) = True"
  "as_rate_limited (ErrCircuitOpen h t) = False"
  "as_rate_limited (RetryableError e) = as_rate_limited e"
  "as_rate_limited ContextErr = False"
  "as_rate_limited (Failure m) = False"
  "as_rate_limited (Wrapped m e) = as_rate_limited e"
  by (simp_all add: as_rate_limited_def)

lemma as_circuit_open_simps [simp]:
  "as_circuit_open (ErrInvalid k) = False"
  "as_circuit_open (ErrRateLimited h s d) = False"
  "as_circuit_open (ErrCircuitOpen h t) = True"
  "as_circuit_open (RetryableError e) = as_circuit_open e"
  "as_circuit_open ContextErr = False"
  "as_circuit_open (Failure m) = False"
  "as_circuit_open (Wrapped m e) = as_circuit_open e"
  by (simp_all add: as_circuit_open_def)

lemma as_retryable_simps [simp]:
  "as_retryable (ErrInvalid k) = False"
  "as_retryable (ErrRateLimited h s d) = False"
  "as_retryable (ErrCircuitOpen h t) = False"
  "as_retryable (RetryableError e) = True"
  "as_retryable ContextErr = False"
  "as_retryable (Failure m) = False"
  "as_retryable (Wrapped m e) = as_retryable e"
  by (simp_all add: as_retryable_def)

text \<open>The result of a call: a value, an error value, or a run-time panic.\<close>

datatype 'a res = Ok 'a | Err go_error | Panic

definition is_panic :: "'a res \<Rightarrow> bool" where
  "is_panic r = (case r of Panic \<Rightarrow> True | _ \<Rightarrow> False)"

lemma is_panic_simps [simp, result_simps]:
  "is_panic Panic" "\<not> is_panic (Ok x)" "\<not> is_panic (Err e)"
  by (simp_all add: is_panic_def)

section \<open>Lists\<close>

lemma take_drop_split: "xs = take n xs @ drop n xs"
  by simp

lemma find_Some_in: "find P xs = Some x \<Longrightarrow> x \<in> set xs \<and> P x"
  by (induction xs) (auto split: if_splits)

lemma find_None_all: "find P xs = None \<longleftrightarrow> (\<forall>x \<in> set xs. \<not> P x)"
  by (induction xs) auto

lemma find_map_option: "(\<And>x. P (f x) = P x) \<Longrightarrow> find P (map f xs) = map_option f (find P xs)"
  by (induction xs) auto

definition has_prefix_list :: "'a list \<Rightarrow> 'a list \<Rightarrow> bool" where
  "has_prefix_list xs ys = (take (length xs) ys = xs)"

lemma has_prefix_list_iff: "has_prefix_list xs ys \<longleftrightarrow> (\<exists>zs. ys = xs @ zs)"
  unfolding has_prefix_list_def by (metis append_eq_conv_conj append_take_drop_id)

lemma has_prefix_list_simps [simp]: "has_prefix_list xs xs" "has_prefix_list xs (xs @ ys)"
  by (simp_all add: has_prefix_list_def)

lemma has_prefix_list_trans:
  "has_prefix_list xs ys \<Longrightarrow> has_prefix_list ys zs \<Longrightarrow> has_prefix_list xs zs"
  by (auto simp: has_prefix_list_iff)

lemma sort_eq_of_mset_eq:
  fixes xs ys :: "'a::linorder list"
  assumes "mset xs = mset ys"
  shows "sort xs = sort ys"
  by (rule properties_for_sort) (simp_all add: assms)

end
