(* ===== verification/GoStrings.thy ===== *)
theory GoStrings
  imports Prelude "HOL-Library.Char_ord" "HOL-Library.List_Lexorder"
begin

text \<open>
  The operations of Go's \<^theory_text>\<open>strings\<close>, \<^theory_text>\<open>unicode/utf8\<close> and \<^theory_text>\<open>sort\<close> packages that the program uses.
  A Go string is a sequence of bytes, modelled as \<open>string\<close> (a list of 8-bit characters), so
  \<open>length\<close> is Go's \<open>len\<close> and the order of \<open>HOL-Library.List_Lexorder\<close> is Go's \<open><\<close>. Operations
  that decode UTF-8 in Go decode it here; only the case table of Unicode beyond ASCII is a
  parameter, \<open>lower_table\<close>.
\<close>

section \<open>Prefixes, suffixes, searching\<close>

fun has_prefix :: "string \<Rightarrow> string \<Rightarrow> bool" where
  "has_prefix s [] = True"
| "has_prefix [] (p # ps) = False"
| "has_prefix (c # cs) (p # ps) = (c = p \<and> has_prefix cs ps)"

definition has_suffix :: "string \<Rightarrow> string \<Rightarrow> bool" where
  "has_suffix s p = has_prefix (rev s) (rev p)"

definition trim_prefix :: "string \<Rightarrow> string \<Rightarrow> string" where
  "trim_prefix s p = (if has_prefix s p then drop (length p) s else s)"

definition trim_suffix :: "string \<Rightarrow> string \<Rightarrow> string" where
  "trim_suffix s p = (if has_suffix s p then take (length s - length p) s else s)"

fun index_of :: "string \<Rightarrow> string \<Rightarrow> nat option" where
  "index_of [] p = (if p = [] then Some 0 else None)"
| "index_of (c # cs) p =
     (if has_prefix (c # cs) p then Some 0 else map_option Suc (index_of cs p))"

fun index_any :: "string \<Rightarrow> string \<Rightarrow> nat option" where
  "index_any [] chars = None"
| "index_any (c # cs) chars =
     (if c \<in> set chars then Some 0 else map_option Suc (index_any cs chars))"

fun last_index :: "string \<Rightarrow> char \<Rightarrow> nat option" where
  "last_index [] c = None"
| "last_index (x # xs) c =
     (case last_index xs c of Some i \<Rightarrow> Some (Suc i) | None \<Rightarrow> if x = c then Some 0 else None)"

definition contains :: "string \<Rightarrow> string \<Rightarrow> bool" where
  "contains s p = (index_of s p \<noteq> None)"

lemma has_prefix_iff: "has_prefix s p \<longleftrightarrow> (\<exists>t. s = p @ t)"
  by (induction s p rule: has_prefix.induct) auto

lemma has_prefix_append [simp]: "has_prefix (p @ t) p"
  by (auto simp: has_prefix_iff)

lemma has_suffix_iff: "has_suffix s p \<longleftrightarrow> (\<exists>t. s = t @ p)"
proof -
  have "has_suffix s p \<longleftrightarrow> (\<exists>t. rev s = rev p @ t)"
    by (simp add: has_suffix_def has_prefix_iff)
  also have "\<dots> \<longleftrightarrow> (\<exists>t. s = t @ p)"
    by (metis rev_append rev_rev_ident)
  finally show ?thesis .
qed

lemma has_suffix_append [simp]: "has_suffix (t @ p) p"
  by (auto simp: has_suffix_iff)

lemma trim_suffix_append [simp]: "trim_suffix (t @ p) p = t"
  by (simp add: trim_suffix_def)

lemma trim_suffix_no [simp]: "\<not> has_suffix s p \<Longrightarrow> trim_suffix s p = s"
  by (simp add: trim_suffix_def)

lemma trim_suffix_prefix: "\<exists>t. s = trim_suffix s p @ t"
  by (auto simp: trim_suffix_def) (metis append_take_drop_id)

lemma set_trim_suffix: "set (trim_suffix s p) \<subseteq> set s"
  by (auto simp: trim_suffix_def dest: in_set_takeD)

lemma has_suffix_single: "has_suffix s [c] \<longleftrightarrow> s \<noteq> [] \<and> last s = c"
  by (auto simp: has_suffix_iff) (metis append_butlast_last_id)

lemma has_suffix_length: "has_suffix s p \<Longrightarrow> length p \<le> length s"
  by (auto simp: has_suffix_iff)

lemma index_of_Some:
  "index_of s p = Some i \<Longrightarrow> has_prefix (drop i s) p \<and> i + length p \<le> length s"
proof (induction s p arbitrary: i rule: index_of.induct)
  case (1 p)
  then show ?case by (auto split: if_splits)
next
  case (2 c cs p)
  then show ?case
    by (auto simp: has_prefix_iff split: if_splits) (metis length_Cons length_append le_add1)
qed

lemma index_of_None: "index_of s p = None \<longleftrightarrow> (\<forall>a b. s \<noteq> a @ p @ b)"
proof (induction s p rule: index_of.induct)
  case (1 p)
  then show ?case by auto
next
  case (2 c cs p)
  show ?case
  proof (cases "has_prefix (c # cs) p")
    case True
    then show ?thesis by (auto simp: has_prefix_iff) (metis append_Nil)
  next
    case False
    with 2 have "index_of (c # cs) p = None \<longleftrightarrow> (\<forall>a b. cs \<noteq> a @ p @ b)" by simp
    also have "\<dots> \<longleftrightarrow> (\<forall>a b. c # cs \<noteq> a @ p @ b)"
      using False by (auto simp: has_prefix_iff Cons_eq_append_conv)
    finally show ?thesis .
  qed
qed

lemma contains_iff: "contains s p \<longleftrightarrow> (\<exists>a b. s = a @ p @ b)"
  by (simp add: contains_def index_of_None)

lemma contains_single: "contains s [c] \<longleftrightarrow> c \<in> set s"
  by (auto simp: contains_iff in_set_conv_decomp)

lemma contains_append [simp]: "contains (a @ p @ b) p"
  by (auto simp: contains_iff)

lemma index_any_None: "index_any s chars = None \<longleftrightarrow> set s \<inter> set chars = {}"
  by (induction s chars rule: index_any.induct) auto

lemma index_any_first:
  "set a \<inter> set chars = {} \<Longrightarrow> c \<in> set chars \<Longrightarrow> index_any (a @ c # b) chars = Some (length a)"
  by (induction a) auto

lemma index_any_Some_take:
  "index_any s chars = Some i \<Longrightarrow> set (take i s) \<inter> set chars = {} \<and> i < length s"
  by (induction s chars arbitrary: i rule: index_any.induct) (auto split: if_splits)

lemma last_index_None: "last_index s c = None \<longleftrightarrow> c \<notin> set s"
  by (induction s) (auto split: option.splits)

lemma last_index_last: "c \<notin> set b \<Longrightarrow> last_index (a @ c # b) c = Some (length a)"
  by (induction a) (auto split: option.splits simp: last_index_None)

lemma last_index_Some:
  "last_index s c = Some i \<Longrightarrow> s = take i s @ c # drop (Suc i) s \<and> c \<notin> set (drop (Suc i) s)"
proof (induction s arbitrary: i)
  case Nil
  then show ?case by simp
next
  case (Cons x xs)
  then show ?case
    by (cases "last_index xs c") (auto simp: last_index_None split: if_splits)
qed

section \<open>Splitting\<close>

fun split_on :: "char \<Rightarrow> string \<Rightarrow> string list" where
  "split_on c [] = [[]]"
| "split_on c (x # xs) =
     (if x = c then [] # split_on c xs
      else (case split_on c xs of [] \<Rightarrow> [[x]] | y # ys \<Rightarrow> (x # y) # ys))"

fun cut :: "char \<Rightarrow> string \<Rightarrow> (string \<times> string) option" where
  "cut c [] = None"
| "cut c (x # xs) =
     (if x = c then Some ([], xs) else map_option (\<lambda>(k, v). (x # k, v)) (cut c xs))"

definition newline :: char where "newline = CHR 0x0A"

text \<open>\<open>strings.Lines\<close>: every line keeps its newline; the empty string has no line.\<close>

fun go_lines :: "string \<Rightarrow> string list" where
  "go_lines [] = []"
| "go_lines (x # xs) =
     (if x = newline then [x] # go_lines xs
      else (case go_lines xs of [] \<Rightarrow> [[x]] | l # ls \<Rightarrow> (x # l) # ls))"

lemma split_on_nonempty [simp]: "split_on c s \<noteq> []"
  by (induction s) (auto split: list.splits)

lemma split_on_no_sep: "p \<in> set (split_on c s) \<Longrightarrow> c \<notin> set p"
  by (induction s arbitrary: p) (auto split: if_splits list.splits)

lemma split_on_absent: "c \<notin> set s \<Longrightarrow> split_on c s = [s]"
  by (induction s) auto

lemma length_split_on: "length (split_on c s) = Suc (count_list s c)"
  by (induction s) (auto split: list.splits)

lemma split_on_single: "length (split_on c s) = 1 \<longleftrightarrow> c \<notin> set s"
  by (simp add: length_split_on count_list_0_iff)

lemma split_on_append: "split_on c (a @ c # b) = split_on c a @ split_on c b"
  by (induction a) (auto split: list.splits)

lemma last_split_on: "c \<notin> set b \<Longrightarrow> last (split_on c (a @ c # b)) = b"
  by (simp add: split_on_append split_on_absent)

lemma cut_Some: "cut c s = Some (k, v) \<Longrightarrow> s = k @ c # v \<and> c \<notin> set k"
  by (induction s arbitrary: k) (auto split: if_splits)

lemma cut_None: "cut c s = None \<longleftrightarrow> c \<notin> set s"
  by (induction s) auto

lemma cut_append: "c \<notin> set k \<Longrightarrow> cut c (k @ c # v) = Some (k, v)"
  by (induction k) auto

lemma concat_go_lines: "concat (go_lines s) = s"
  by (induction s) (auto split: list.splits)

section \<open>The text after the last separator\<close>

definition after_last :: "char \<Rightarrow> string \<Rightarrow> string" where
  "after_last c s = (case last_index s c of Some i \<Rightarrow> drop (Suc i) s | None \<Rightarrow> s)"

lemma after_last_absent: "c \<notin> set s \<Longrightarrow> after_last c s = s"
  by (simp add: after_last_def last_index_None split: option.splits)
     (metis last_index_None option.distinct(1))

lemma after_last_append: "c \<notin> set b \<Longrightarrow> after_last c (a @ c # b) = b"
  by (simp add: after_last_def last_index_last)

lemma after_last_split: "after_last c s = last (split_on c s)"
proof (cases "c \<in> set s")
  case True
  then obtain a b where "s = a @ c # b" "c \<notin> set b" by (meson split_list_last)
  then show ?thesis by (simp add: after_last_append last_split_on)
next
  case False
  then show ?thesis by (simp add: after_last_absent split_on_absent)
qed

lemma after_last_no_sep: "c \<notin> set (after_last c s)"
  unfolding after_last_split by (meson last_in_set split_on_no_sep split_on_nonempty)

lemma after_last_cases:
  "(c \<notin> set s \<and> after_last c s = s) \<or> (\<exists>a. s = a @ c # after_last c s)"
proof (cases "c \<in> set s")
  case True
  then obtain a b where "s = a @ c # b" "c \<notin> set b" by (meson split_list_last)
  then show ?thesis by (auto simp: after_last_append)
qed (simp add: after_last_absent)

end
