(* ===== verification/GoText.thy ===== *)
theory GoText
  imports GoStrings
begin

text \<open>
  White space, letter case, integers and sorting of Go strings: \<^theory_text>\<open>strings.TrimSpace\<close>,
  \<^theory_text>\<open>strings.Trim\<close>, \<^theory_text>\<open>strings.Fields\<close>, \<^theory_text>\<open>strings.ToLower\<close>, \<^theory_text>\<open>strings.EqualFold\<close>,
  \<^theory_text>\<open>strconv.Atoi\<close> and \<^theory_text>\<open>sort.Strings\<close>.
\<close>

section \<open>White space\<close>

definition bytes :: "nat list \<Rightarrow> string" where
  "bytes ns = map char_of ns"

text \<open>Comparing a character given by its code with another one.\<close>

lemma char_code_eq:
  "(char_of n = c) = (n mod 256 = of_char c)" "(c = char_of n) = (of_char c = n mod 256)" for n :: nat
proof -
  show one: "(char_of n = c) = (n mod 256 = of_char c)"
    by (simp add: char_of_eq_iff take_bit_eq_mod)
  then show "(c = char_of n) = (of_char c = n mod 256)" by metis
qed

text \<open>The UTF-8 encodings of the runes for which \<^theory_text>\<open>unicode.IsSpace\<close> holds.\<close>

definition space_encodings :: "string list" where
  "space_encodings = map bytes
     [[0x09], [0x0A], [0x0B], [0x0C], [0x0D], [0x20], [0xC2, 0x85], [0xC2, 0xA0],
      [0xE1, 0x9A, 0x80], [0xE2, 0x80, 0x80], [0xE2, 0x80, 0x81], [0xE2, 0x80, 0x82],
      [0xE2, 0x80, 0x83], [0xE2, 0x80, 0x84], [0xE2, 0x80, 0x85], [0xE2, 0x80, 0x86],
      [0xE2, 0x80, 0x87], [0xE2, 0x80, 0x88], [0xE2, 0x80, 0x89], [0xE2, 0x80, 0x8A],
      [0xE2, 0x80, 0xA8], [0xE2, 0x80, 0xA9], [0xE2, 0x80, 0xAF], [0xE2, 0x81, 0x9F],
      [0xE3, 0x80, 0x80]]"

definition leading_space :: "string \<Rightarrow> string option" where
  "leading_space s = find (has_prefix s) space_encodings"

definition trailing_space :: "string \<Rightarrow> string option" where
  "trailing_space s = find (has_suffix s) space_encodings"

lemma space_encodings_nonempty: "e \<in> set space_encodings \<Longrightarrow> e \<noteq> []"
  by (auto simp: space_encodings_def bytes_def)

lemma leading_space_Some: "leading_space s = Some e \<Longrightarrow> e \<noteq> [] \<and> has_prefix s e"
  unfolding leading_space_def by (auto dest!: find_Some_in space_encodings_nonempty)

lemma trailing_space_Some: "trailing_space s = Some e \<Longrightarrow> e \<noteq> [] \<and> has_suffix s e"
  unfolding trailing_space_def by (auto dest!: find_Some_in space_encodings_nonempty)

lemma leading_space_shrinks:
  "leading_space s = Some e \<Longrightarrow> length (drop (length e) s) < length s"
  by (auto dest!: leading_space_Some simp: has_prefix_iff)

lemma trailing_space_shrinks:
  "trailing_space s = Some e \<Longrightarrow> length (take (length s - length e) s) < length s"
  by (auto dest!: trailing_space_Some simp: has_suffix_iff)

function trim_left :: "string \<Rightarrow> string" where
  "trim_left s = (case leading_space s of None \<Rightarrow> s | Some e \<Rightarrow> trim_left (drop (length e) s))"
  by pat_completeness auto
termination
  by (relation "measure length") (auto dest: leading_space_shrinks)

function trim_right :: "string \<Rightarrow> string" where
  "trim_right s =
     (case trailing_space s of None \<Rightarrow> s | Some e \<Rightarrow> trim_right (take (length s - length e) s))"
  by pat_completeness auto
termination
  by (relation "measure length") (auto dest: trailing_space_shrinks)

declare trim_left.simps [simp del] trim_right.simps [simp del]

definition trim_space :: "string \<Rightarrow> string" where
  "trim_space s = trim_right (trim_left s)"

text \<open>
  \<^theory_text>\<open>strings.Fields\<close>. Going byte by byte is going rune by rune here, since the first byte of
  every encoding in \<open>space_encodings\<close> is no continuation byte.
\<close>

function fields_from :: "string \<Rightarrow> string \<Rightarrow> string list" where
  "fields_from acc s =
     (case leading_space s of
        Some e \<Rightarrow> (if acc = [] then [] else [rev acc]) @ fields_from [] (drop (length e) s)
      | None \<Rightarrow>
          (case s of
             [] \<Rightarrow> (if acc = [] then [] else [rev acc])
           | c # cs \<Rightarrow> fields_from (c # acc) cs))"
  by pat_completeness auto
termination
  by (relation "measure (\<lambda>(acc, s). length s)") (auto dest: leading_space_shrinks)

declare fields_from.simps [simp del]

definition go_fields :: "string \<Rightarrow> string list" where
  "go_fields s = fields_from [] s"

text \<open>\<^theory_text>\<open>strings.Trim\<close> with a cutset of one ASCII character.\<close>

definition trim_char :: "char \<Rightarrow> string \<Rightarrow> string" where
  "trim_char c s = rev (dropWhile ((=) c) (rev (dropWhile ((=) c) s)))"

lemma leading_space_Nil [simp]: "leading_space [] = None"
  using leading_space_Some [of "[]"] by (cases "leading_space []") (auto simp: has_prefix_iff)

lemma trailing_space_Nil [simp]: "trailing_space [] = None"
  using trailing_space_Some [of "[]"] by (cases "trailing_space []") (auto simp: has_suffix_iff)

lemma trim_left_id: "leading_space s = None \<Longrightarrow> trim_left s = s"
  by (simp add: trim_left.simps [of s])

lemma trim_right_id: "trailing_space s = None \<Longrightarrow> trim_right s = s"
  by (simp add: trim_right.simps [of s])

lemma leading_space_trim_left: "leading_space (trim_left s) = None"
proof (induction s rule: trim_left.induct)
  case (1 s)
  show ?case
  proof (cases "leading_space s")
    case None
    then show ?thesis by (simp add: trim_left_id)
  next
    case (Some e)
    with 1 show ?thesis by (simp add: trim_left.simps [of s])
  qed
qed

lemma trailing_space_trim_right: "trailing_space (trim_right s) = None"
proof (induction s rule: trim_right.induct)
  case (1 s)
  show ?case
  proof (cases "trailing_space s")
    case None
    then show ?thesis by (simp add: trim_right_id)
  next
    case (Some e)
    with 1 show ?thesis by (simp add: trim_right.simps [of s])
  qed
qed

lemma trim_right_prefix: "\<exists>t. s = trim_right s @ t"
proof (induction s rule: trim_right.induct)
  case (1 s)
  show ?case
  proof (cases "trailing_space s")
    case None
    then show ?thesis by (simp add: trim_right_id)
  next
    case (Some e)
    with 1 obtain t where "take (length s - length e) s = trim_right (take (length s - length e) s) @ t"
      by auto
    then have "s = trim_right (take (length s - length e) s) @ t @ drop (length s - length e) s"
      by (metis append.assoc append_take_drop_id)
    with Some show ?thesis by (auto simp: trim_right.simps [of s])
  qed
qed

lemma trim_left_suffix: "\<exists>t. s = t @ trim_left s"
proof (induction s rule: trim_left.induct)
  case (1 s)
  show ?case
  proof (cases "leading_space s")
    case None
    then show ?thesis by (simp add: trim_left_id)
  next
    case (Some e)
    with 1 obtain t where "drop (length e) s = t @ trim_left (drop (length e) s)" by auto
    then have "s = (take (length e) s @ t) @ trim_left (drop (length e) s)"
      by (metis append.assoc append_take_drop_id)
    moreover from Some have "trim_left s = trim_left (drop (length e) s)"
      by (simp add: trim_left.simps [of s])
    ultimately show ?thesis by metis
  qed
qed

text \<open>A leading space of a prefix is a leading space of the whole: trimming the end keeps the start.\<close>

lemma leading_space_append_None: "leading_space (s @ t) = None \<Longrightarrow> leading_space s = None"
  unfolding leading_space_def find_None_all by (auto simp: has_prefix_iff)

lemma trim_space_no_leading: "leading_space (trim_space s) = None"
proof -
  obtain t where "trim_left s = trim_space s @ t"
    using trim_right_prefix [of "trim_left s"] by (auto simp: trim_space_def)
  then show ?thesis
    using leading_space_trim_left [of s] by (metis leading_space_append_None)
qed

lemma trim_space_no_trailing: "trailing_space (trim_space s) = None"
  by (simp add: trim_space_def trailing_space_trim_right)

lemma trim_space_id: "leading_space s = None \<Longrightarrow> trailing_space s = None \<Longrightarrow> trim_space s = s"
  by (simp add: trim_space_def trim_left_id trim_right_id)

lemma trim_space_idem [simp]: "trim_space (trim_space s) = trim_space s"
  by (simp add: trim_space_id trim_space_no_leading trim_space_no_trailing)

lemma trim_space_Nil [simp]: "trim_space [] = []"
  by (simp add: trim_space_id)

lemma set_trim_space: "set (trim_space s) \<subseteq> set s"
proof -
  obtain t u where "s = t @ trim_left s" "trim_left s = trim_space s @ u"
    using trim_left_suffix trim_right_prefix by (metis trim_space_def)
  then show ?thesis by (metis set_append Un_upper1 Un_upper2 order_trans)
qed

text \<open>A string that does not start with white space has a first field.\<close>

lemma fields_from_acc: "acc \<noteq> [] \<Longrightarrow> fields_from acc s \<noteq> []"
proof (induction acc s rule: fields_from.induct)
  case (1 acc s)
  then show ?case
    by (auto simp: fields_from.simps [of acc s] split: option.splits list.splits)
qed

lemma go_fields_nonempty: "leading_space s = None \<Longrightarrow> s \<noteq> [] \<Longrightarrow> go_fields s \<noteq> []"
proof (cases s)
  case (Cons c cs)
  assume "leading_space s = None" and "s \<noteq> []"
  with Cons have "go_fields s = fields_from [c] cs"
    by (simp add: go_fields_def fields_from.simps [of "[]" "c # cs"])
  then show ?thesis by (simp add: fields_from_acc)
qed simp

lemma trim_char_ends:
  "trim_char c s \<noteq> [] \<Longrightarrow> hd (trim_char c s) \<noteq> c \<and> last (trim_char c s) \<noteq> c"
proof -
  assume ne: "trim_char c s \<noteq> []"
  let ?m = "dropWhile ((=) c) s"
  have last: "last (trim_char c s) \<noteq> c"
    using ne hd_dropWhile [of "(=) c" "rev ?m"] by (auto simp: trim_char_def last_rev)
  obtain u where u: "?m = trim_char c s @ u"
    by (metis rev_append rev_rev_ident takeWhile_dropWhile_id trim_char_def)
  then have "hd (trim_char c s) = hd ?m" and "?m \<noteq> []" using ne by auto
  then have "hd (trim_char c s) \<noteq> c"
    using hd_dropWhile [of "(=) c" s] by auto
  with last show ?thesis by simp
qed

lemma set_trim_char: "set (trim_char c s) \<subseteq> set s"
  unfolding trim_char_def by (auto dest!: set_dropWhileD)

section \<open>UTF-8\<close>

abbreviation rune_error :: nat where "rune_error \<equiv> 0xFFFD"

definition byte_of :: "char \<Rightarrow> nat" where
  "byte_of c = of_char c"

definition is_cont :: "nat \<Rightarrow> bool" where
  "is_cont b = (0x80 \<le> b \<and> b \<le> 0xBF)"

text \<open>
  \<^theory_text>\<open>utf8.DecodeRuneInString\<close>: the first rune and its width, with the error rune and width 1 for
  an invalid encoding (overlong forms, surrogates and values beyond 0x10FFFF are invalid).
\<close>

fun decode_rune :: "nat list \<Rightarrow> nat \<times> nat" where
  "decode_rune [] = (rune_error, 0)"
| "decode_rune (b0 # bs) =
     (if b0 < 0x80 then (b0, 1)
      else if 0xC2 \<le> b0 \<and> b0 \<le> 0xDF then
        (case bs of
           b1 # _ \<Rightarrow> if is_cont b1 then ((b0 - 0xC0) * 64 + (b1 - 0x80), 2) else (rune_error, 1)
         | _ \<Rightarrow> (rune_error, 1))
      else if 0xE0 \<le> b0 \<and> b0 \<le> 0xEF then
        (case bs of
           b1 # b2 # _ \<Rightarrow>
             if is_cont b1 \<and> is_cont b2 \<and> (b0 = 0xE0 \<longrightarrow> 0xA0 \<le> b1) \<and> (b0 = 0xED \<longrightarrow> b1 \<le> 0x9F)
             then ((b0 - 0xE0) * 4096 + (b1 - 0x80) * 64 + (b2 - 0x80), 3) else (rune_error, 1)
         | _ \<Rightarrow> (rune_error, 1))
      else if 0xF0 \<le> b0 \<and> b0 \<le> 0xF4 then
        (case bs of
           b1 # b2 # b3 # _ \<Rightarrow>
             if is_cont b1 \<and> is_cont b2 \<and> is_cont b3 \<and> (b0 = 0xF0 \<longrightarrow> 0x90 \<le> b1) \<and> (b0 = 0xF4 \<longrightarrow> b1 \<le> 0x8F)
             then ((b0 - 0xF0) * 262144 + (b1 - 0x80) * 4096 + (b2 - 0x80) * 64 + (b3 - 0x80), 4)
             else (rune_error, 1)
         | _ \<Rightarrow> (rune_error, 1))
      else (rune_error, 1))"

definition encode_rune :: "nat \<Rightarrow> nat list" where
  "encode_rune r =
     (if r < 0x80 then [r]
      else if r < 0x800 then [0xC0 + r div 64, 0x80 + r mod 64]
      else if 0x10FFFF < r \<or> (0xD800 \<le> r \<and> r \<le> 0xDFFF) then [0xEF, 0xBF, 0xBD]
      else if r < 0x10000 then [0xE0 + r div 4096, 0x80 + r div 64 mod 64, 0x80 + r mod 64]
      else [0xF0 + r div 262144, 0x80 + r div 4096 mod 64, 0x80 + r div 64 mod 64, 0x80 + r mod 64])"

lemma decode_rune_width: "0 < snd (decode_rune (b # bs))"
  by (auto split: list.splits)

function runes_of :: "nat list \<Rightarrow> nat list" where
  "runes_of [] = []"
| "runes_of (b # bs) =
     fst (decode_rune (b # bs)) # runes_of (drop (snd (decode_rune (b # bs))) (b # bs))"
  by pat_completeness auto
termination
proof (relation "measure length")
  fix b bs
  show "(drop (snd (decode_rune (b # bs))) (b # bs), b # bs) \<in> measure length"
    using decode_rune_width [of b bs] by (simp del: decode_rune.simps)
qed simp

section \<open>Letter case\<close>

definition ascii_lower :: "nat \<Rightarrow> nat" where
  "ascii_lower b = (if 65 \<le> b \<and> b \<le> 90 then b + 32 else b)"

definition is_ascii :: "string \<Rightarrow> bool" where
  "is_ascii s = list_all (\<lambda>c. byte_of c < 0x80) s"

definition lower_char :: "char \<Rightarrow> char" where
  "lower_char c = (if 65 \<le> byte_of c \<and> byte_of c \<le> 90 then char_of (byte_of c + 32) else c)"

text \<open>
  \<^theory_text>\<open>strings.ToLower\<close>: the byte-wise path for ASCII strings, otherwise \<^theory_text>\<open>strings.Map\<close> with
  \<^theory_text>\<open>unicode.ToLower\<close>, whose table beyond ASCII is the parameter \<open>lower_table\<close>.
\<close>

definition rune_lower :: "(nat \<Rightarrow> nat) \<Rightarrow> nat \<Rightarrow> nat" where
  "rune_lower lower_table r = (if r < 0x80 then ascii_lower r else lower_table r)"

definition to_lower :: "(nat \<Rightarrow> nat) \<Rightarrow> string \<Rightarrow> string" where
  "to_lower lower_table s =
     (if is_ascii s then map lower_char s
      else bytes (concat (map (\<lambda>r. encode_rune (rune_lower lower_table r)) (runes_of (map byte_of s)))))"

lemma to_lower_ascii: "is_ascii s \<Longrightarrow> to_lower t s = map lower_char s"
  by (simp add: to_lower_def)

lemma byte_of_lower_char: "byte_of (lower_char c) = ascii_lower (byte_of c)"
  by (simp add: lower_char_def byte_of_def ascii_lower_def)

lemma lower_char_idem [simp]: "lower_char (lower_char c) = lower_char c"
  by (simp add: lower_char_def byte_of_def)

lemma is_ascii_lower: "is_ascii s \<Longrightarrow> is_ascii (map lower_char s)"
  by (induction s) (auto simp: is_ascii_def byte_of_lower_char ascii_lower_def)

lemma is_ascii_to_lower: "is_ascii s \<Longrightarrow> is_ascii (to_lower t s)"
  by (simp add: to_lower_ascii is_ascii_lower)

lemma length_to_lower: "is_ascii s \<Longrightarrow> length (to_lower t s) = length s"
  by (simp add: to_lower_ascii)

lemma to_lower_idem: "is_ascii s \<Longrightarrow> to_lower t (to_lower t s) = to_lower t s"
  by (simp add: to_lower_ascii is_ascii_lower)

lemma to_lower_Nil [simp]: "to_lower t [] = []"
  by (simp add: to_lower_def is_ascii_def)

text \<open>The general path agrees with the fast path on ASCII, so the split is an optimisation.\<close>

lemma runes_of_ascii: "is_ascii s \<Longrightarrow> runes_of (map byte_of s) = map byte_of s"
  by (induction s) (auto simp: is_ascii_def)

lemma encode_lower_ascii:
  "byte_of c < 0x80 \<Longrightarrow> bytes (encode_rune (rune_lower t (byte_of c))) = [lower_char c]"
  by (auto simp: rune_lower_def encode_rune_def ascii_lower_def bytes_def lower_char_def byte_of_def)

lemma bytes_append: "bytes (xs @ ys) = bytes xs @ bytes ys"
  by (simp add: bytes_def)

lemma to_lower_slow_path_ascii:
  "is_ascii s \<Longrightarrow>
   bytes (concat (map (\<lambda>r. encode_rune (rune_lower t r)) (runes_of (map byte_of s)))) = map lower_char s"
proof (induction s)
  case Nil
  then show ?case by (simp add: bytes_def)
next
  case (Cons c s)
  then show ?case by (simp add: runes_of_ascii bytes_append encode_lower_ascii is_ascii_def)
qed

text \<open>
  \<^theory_text>\<open>strings.EqualFold\<close> against an ASCII text. Two runes beyond ASCII fold to ASCII letters: the
  long s (0x17F) and the Kelvin sign (0x212A).
\<close>

fun equal_fold :: "string \<Rightarrow> string \<Rightarrow> bool" where
  "equal_fold [] [] = True"
| "equal_fold [] (t # ts) = False"
| "equal_fold (c # cs) [] = False"
| "equal_fold (c # cs) (t # ts) =
     (if lower_char c = lower_char t \<and> byte_of c < 0x80 then equal_fold cs ts
      else if lower_char t = CHR ''s'' \<and> c = CHR 0xC5 \<and> has_prefix cs [CHR 0xBF]
      then equal_fold (drop 1 cs) ts
      else if lower_char t = CHR ''k'' \<and> c = CHR 0xE2 \<and> has_prefix cs [CHR 0x84, CHR 0xAA]
      then equal_fold (drop 2 cs) ts
      else False)"

lemma equal_fold_ascii:
  "is_ascii s \<Longrightarrow> equal_fold s t \<longleftrightarrow> map lower_char s = map lower_char t"
proof (induction s t rule: equal_fold.induct)
  case (4 c cs t ts)
  have no: "byte_of (CHR 0xC5) = 0xC5" "byte_of (CHR 0xE2) = 0xE2" by (simp_all add: byte_of_def)
  from 4 no show ?case by (auto simp: is_ascii_def)
qed simp_all

section \<open>Integers and sorting\<close>

definition digit_value :: "char \<Rightarrow> int option" where
  "digit_value c = (if 48 \<le> byte_of c \<and> byte_of c \<le> 57 then Some (int (byte_of c) - 48) else None)"

fun digits_value :: "int \<Rightarrow> string \<Rightarrow> int option" where
  "digits_value acc [] = Some acc"
| "digits_value acc (c # cs) =
     (case digit_value c of None \<Rightarrow> None | Some d \<Rightarrow> digits_value (acc * 10 + d) cs)"

text \<open>\<^theory_text>\<open>strconv.Atoi\<close>: an optional sign, at least one digit, and a value that fits in 64 bits.\<close>

definition atoi :: "string \<Rightarrow> int option" where
  "atoi s =
     (let (neg, ds) = (case s of
          [] \<Rightarrow> (False, [])
        | c # cs \<Rightarrow> if c = CHR ''-'' then (True, cs) else if c = CHR ''+'' then (False, cs) else (False, s))
      in if ds = [] then None
         else case digits_value 0 ds of
             None \<Rightarrow> None
           | Some v \<Rightarrow>
               let n = (if neg then - v else v)
               in if min_int64 \<le> n \<and> n \<le> max_int64 then Some n else None)"

definition sort_strings :: "string list \<Rightarrow> string list" where
  "sort_strings xs = sort xs"

lemma atoi_range: "atoi s = Some n \<Longrightarrow> min_int64 \<le> n \<and> n \<le> max_int64"
  by (auto simp: atoi_def Let_def split: prod.splits option.splits if_splits)

lemma sort_strings_sorted [simp]: "sorted (sort_strings xs)"
  by (simp add: sort_strings_def)

lemma set_sort_strings [simp]: "set (sort_strings xs) = set xs"
  by (simp add: sort_strings_def)

lemma mset_sort_strings [simp]: "mset (sort_strings xs) = mset xs"
  by (simp add: sort_strings_def)

lemma sort_strings_cong: "mset xs = mset ys \<Longrightarrow> sort_strings xs = sort_strings ys"
  unfolding sort_strings_def by (rule sort_eq_of_mset_eq)

end
