(* ===== verification/Core.thy ===== *)
theory Core
  imports GoText
begin

text \<open>
  The vocabulary of \<^theory_text>\<open>internal/core/result.go\<close>: the enumerations, the result of one source, the
  normalised answer and the registration details. A Go string type with named constants becomes
  a \<^theory_text>\<open>datatype\<close>; where the zero value (the empty string) of such a type can flow through the
  program it has a constructor of its own (\<open>RegistrationZero\<close>, \<open>StatusZero\<close>). Also here: the
  \<^theory_text>\<open>Provider\<close> package's evidence tags, the names of the three sources, and the record of
  what the program takes from code and data outside the repository.
\<close>

section \<open>Enumerations\<close>

datatype availability = AvailabilityAvailable | AvailabilityUnavailable | AvailabilityUnknown

datatype status =
    StatusAvailable
  | StatusRegistered
  | StatusReserved
  | StatusPremium
  | StatusBlocked
  | StatusPendingDelete
  | StatusRedemption
  | StatusRateLimited
  | StatusUnknown
  | StatusZero

datatype confidence = ConfidenceHigh | ConfidenceMedium | ConfidenceLow

datatype registration_status =
    RegistrationRegistered
  | RegistrationNotRegistered
  | RegistrationUnknown
  | RegistrationZero

text \<open>Confidence levels are ordered: low, medium, high.\<close>

fun confidence_rank :: "confidence \<Rightarrow> nat" where
  "confidence_rank ConfidenceLow = 0"
| "confidence_rank ConfidenceMedium = 1"
| "confidence_rank ConfidenceHigh = 2"

lemma confidence_rank_inject: "confidence_rank x = confidence_rank y \<Longrightarrow> x = y"
  by (cases x; cases y) simp_all

instantiation confidence :: linorder
begin

definition less_eq_confidence :: "confidence \<Rightarrow> confidence \<Rightarrow> bool" where
  "less_eq_confidence x y = (confidence_rank x \<le> confidence_rank y)"

definition less_confidence :: "confidence \<Rightarrow> confidence \<Rightarrow> bool" where
  "less_confidence x y = (confidence_rank x < confidence_rank y)"

instance
  by standard (auto simp: less_eq_confidence_def less_confidence_def dest: confidence_rank_inject)

end

lemma confidence_le_medium: "c \<le> ConfidenceMedium \<longleftrightarrow> c \<noteq> ConfidenceHigh"
  by (cases c) (simp_all add: less_eq_confidence_def)

section \<open>Results\<close>

text \<open>The tree that \<^theory_text>\<open>encoding/json\<close> parses a document into; numbers keep their text.\<close>

datatype json =
    JNull
  | JBool bool
  | JNum string
  | JStr string
  | JArr "json list"
  | JObj "(string \<times> json) list"

text \<open>The payloads that the sources store in a field of type \<^theory_text>\<open>any\<close>.\<close>

datatype raw = NoRaw | RawText string | RawHosts "string list" | RawJson json

record event =
  ev_action :: string
  ev_date :: time
  ev_actor :: string

record domain_info =
  di_domain :: string
  di_normalized_domain :: string
  di_registered :: bool
  di_registrar :: string
  di_registrar_iana_id :: string
  di_registration_date :: "time option"
  di_expiration_date :: "time option"
  di_last_changed_date :: "time option"
  di_statuses :: "string list"
  di_nameservers :: "string list"
  di_dnssec :: "bool option"
  di_events :: "event list"
  di_source :: string
  di_provider :: string
  di_raw :: raw

record provider_result =
  pr_provider :: string
  pr_registration :: registration_status
  pr_status :: status
  pr_evidence :: "string list"
  pr_source :: string
  pr_latency_ms :: int
  pr_error :: "go_error option"
  pr_raw :: raw
  pr_info :: "domain_info option"

record check_result =
  cr_domain :: string
  cr_normalized_domain :: string
  cr_tld :: string
  cr_availability :: availability
  cr_status :: status
  cr_confidence :: confidence
  cr_evidence :: "string list"
  cr_conflict :: bool
  cr_sources :: "provider_result list"
  cr_checked_at :: time
  cr_cached :: bool
  cr_error :: "go_error option"

definition zero_info :: domain_info where
  "zero_info =
     \<lparr>di_domain = [], di_normalized_domain = [], di_registered = False, di_registrar = [],
      di_registrar_iana_id = [], di_registration_date = None, di_expiration_date = None,
      di_last_changed_date = None, di_statuses = [], di_nameservers = [], di_dnssec = None,
      di_events = [], di_source = [], di_provider = [], di_raw = NoRaw\<rparr>"

definition zero_result :: provider_result where
  "zero_result =
     \<lparr>pr_provider = [], pr_registration = RegistrationZero, pr_status = StatusZero,
      pr_evidence = [], pr_source = [], pr_latency_ms = 0, pr_error = None, pr_raw = NoRaw,
      pr_info = None\<rparr>"

lemma zero_result_info [simp]: "pr_info zero_result = None"
  by (simp add: zero_result_def)

section \<open>Sources\<close>

definition evidence_tag :: "string \<Rightarrow> string \<Rightarrow> string" where
  "evidence_tag provider tag = provider @ '':'' @ tag"

definition rdap_name :: string where "rdap_name = ''rdap''"
definition whois_name :: string where "whois_name = ''whois''"
definition dns_name :: string where "dns_name = ''dns''"

lemmas provider_names [const_defs] = rdap_name_def whois_name_def dns_name_def

lemma provider_names_distinct [simp]:
  "rdap_name \<noteq> whois_name" "rdap_name \<noteq> dns_name" "whois_name \<noteq> dns_name"
  "whois_name \<noteq> rdap_name" "dns_name \<noteq> rdap_name" "dns_name \<noteq> whois_name"
  "rdap_name \<noteq> []" "whois_name \<noteq> []" "dns_name \<noteq> []"
  by (simp_all add: const_defs)

lemma evidence_tag_inject [simp]: "evidence_tag p t = evidence_tag p u \<longleftrightarrow> t = u"
  by (simp add: evidence_tag_def)

text \<open>
  What the program uses of code and data outside the repository: the IDNA profile and the public
  suffix list of \<^theory_text>\<open>golang.org/x/net\<close>, the Unicode case table beyond ASCII, the layouts of
  \<^theory_text>\<open>time.Parse\<close> and \<^theory_text>\<open>http.ParseTime\<close>, the grammar of \<^theory_text>\<open>encoding/json\<close>, and
  \<^theory_text>\<open>url.JoinPath\<close> and the host of \<^theory_text>\<open>url.Parse\<close>. \<open>None\<close> is an error return.
\<close>

record externals =
  x_to_ascii :: "string \<Rightarrow> string option"
  x_to_unicode :: "string \<Rightarrow> string option"
  x_public_suffix :: "string \<Rightarrow> string"
  x_lower_table :: "nat \<Rightarrow> nat"
  x_parse_time :: "string \<Rightarrow> string \<Rightarrow> time option"
  x_parse_http_time :: "string \<Rightarrow> time option"
  x_parse_json :: "string \<Rightarrow> json option"
  x_join_path :: "string \<Rightarrow> string list \<Rightarrow> string option"
  x_url_host :: "string \<Rightarrow> string option"

abbreviation lower :: "externals \<Rightarrow> string \<Rightarrow> string" where
  "lower X s \<equiv> to_lower (x_lower_table X) s"

end
