(* ===== verification/DomainName.thy ===== *)
theory DomainName
  imports Core
begin

text \<open>
  \<^theory_text>\<open>internal/domainname/name.go\<close>: cleaning up what a caller pasted, mapping it to the ASCII form
  and deriving the registry suffix. The IDNA profile and the public suffix list are in
  \<open>externals\<close>.
\<close>

record name =
  n_input :: string
  n_ascii :: string
  n_unicode :: string
  n_tld :: string
  n_suffix :: string
  n_sld :: string

definition registrable :: "name \<Rightarrow> bool" where
  "registrable n = (n_ascii n = n_sld n @ ''.'' @ n_suffix n)"

definition strip_url_parts :: "string \<Rightarrow> string" where
  "strip_url_parts s0 =
     (let s1 = (case index_of s0 ''://'' of Some i \<Rightarrow> drop (i + 3) s0 | None \<Rightarrow> s0);
          s2 = (case index_any s1 ''/?#'' of Some i \<Rightarrow> take i s1 | None \<Rightarrow> s1);
          s3 = (case last_index s2 (CHR ''@'') of Some i \<Rightarrow> drop (i + 1) s2 | None \<Rightarrow> s2);
          s4 = (case last_index s3 (CHR '':'') of
                  Some i \<Rightarrow> if contains s3 '']'' then s3 else take i s3
                | None \<Rightarrow> s3)
      in trim_space s4)"

definition bad_label :: "string \<Rightarrow> bool" where
  "bad_label label = (label = [] \<or> 63 < length label)"

definition parse :: "externals \<Rightarrow> string \<Rightarrow> go_error + name" where
  "parse X input =
     (let raw = trim_space input
      in if raw = [] then Inl (ErrInvalid EmptyInput)
         else let cleaned = trim_suffix (strip_url_parts raw) ''.''
         in if cleaned = [] then Inl (ErrInvalid NoHost)
         else case x_to_ascii X cleaned of
           None \<Rightarrow> Inl (ErrInvalid IdnaFailed)
         | Some mapped \<Rightarrow>
           let ascii = lower X mapped
           in if \<not> contains ascii ''.'' then Inl (ErrInvalid NoTLD)
           else if 253 < length ascii then Inl (ErrInvalid NameTooLong)
           else if list_ex bad_label (split_on (CHR ''.'') ascii) then Inl (ErrInvalid InvalidLabel)
           else let unicode = (case x_to_unicode X ascii of None \<Rightarrow> ascii | Some u \<Rightarrow> u);
                    suffix = x_public_suffix X ascii
           in if suffix = ascii then Inl (ErrInvalid IsPublicSuffix)
           else let sld = after_last (CHR ''.'') (trim_suffix ascii (''.'' @ suffix));
                    tld = after_last (CHR ''.'') ascii
           in if tld = [] then Inl (ErrInvalid EmptyTLD)
           else Inr \<lparr>n_input = input, n_ascii = ascii, n_unicode = unicode, n_tld = tld,
                     n_suffix = suffix, n_sld = sld\<rparr>)"

definition normalize_tld :: "externals \<Rightarrow> string \<Rightarrow> go_error + string" where
  "normalize_tld X input =
     (let tld = trim_prefix (lower X (trim_space input)) ''.''
      in if tld = [] then Inl (ErrInvalid EmptyTLD)
         else case x_to_ascii X tld of
           None \<Rightarrow> Inl (ErrInvalid IdnaFailed)
         | Some a \<Rightarrow> Inr (lower X a))"

section \<open>Contracts of the code outside the repository\<close>

text \<open>
  \<^theory_text>\<open>publicsuffix.PublicSuffix\<close> returns the whole domain or what follows one of its dots.
\<close>

definition suffix_contract :: "externals \<Rightarrow> bool" where
  "suffix_contract X =
     (\<forall>d. x_public_suffix X d = d \<or> (\<exists>p. d = p @ ''.'' @ x_public_suffix X d))"

text \<open>
  The profile has \<^theory_text>\<open>StrictDomainName\<close>: its results hold letters, digits, hyphens and dots only.
  A lower-cased result is already in ASCII form, so mapping it again changes nothing.
\<close>

definition host_char :: "char \<Rightarrow> bool" where
  "host_char c =
     (byte_of c = 45 \<or> byte_of c = 46 \<or> (48 \<le> byte_of c \<and> byte_of c \<le> 57) \<or>
      (65 \<le> byte_of c \<and> byte_of c \<le> 90) \<or> (97 \<le> byte_of c \<and> byte_of c \<le> 122))"

definition idna_contract :: "externals \<Rightarrow> bool" where
  "idna_contract X =
     (\<forall>s a. x_to_ascii X s = Some a \<longrightarrow>
        list_all host_char a \<and> x_to_ascii X (map lower_char a) = Some (map lower_char a))"

section \<open>Lemmas\<close>

text \<open>What \<open>parse\<close> returned, as one elimination rule for the lemmas below.\<close>

lemma parse_InrE:
  assumes "parse X input = Inr n"
  obtains cleaned mapped where
    "cleaned = trim_suffix (strip_url_parts (trim_space input)) ''.''"
    "x_to_ascii X cleaned = Some mapped"
    "n_ascii n = lower X mapped"
    "contains (n_ascii n) ''.''" "length (n_ascii n) \<le> 253"
    "\<not> list_ex bad_label (split_on (CHR ''.'') (n_ascii n))"
    "n_suffix n = x_public_suffix X (n_ascii n)" "n_suffix n \<noteq> n_ascii n"
    "n_sld n = after_last (CHR ''.'') (trim_suffix (n_ascii n) (''.'' @ n_suffix n))"
    "n_tld n = after_last (CHR ''.'') (n_ascii n)" "n_tld n \<noteq> []" "n_input n = input"
    "n_unicode n = (case x_to_unicode X (n_ascii n) of None \<Rightarrow> n_ascii n | Some u \<Rightarrow> u)"
  using assms by (auto simp: parse_def Let_def split: if_splits option.splits)

lemma labels_ok:
  assumes "\<not> list_ex bad_label (split_on c s)" and "l \<in> set (split_on c s)"
  shows "l \<noteq> [] \<and> length l \<le> 63"
  using assms unfolding list_ex_iff bad_label_def by force

lemma host_char_ascii: "host_char c \<Longrightarrow> byte_of c < 0x80"
  by (auto simp: host_char_def byte_of_def)

lemma host_chars_ascii: "list_all host_char s \<Longrightarrow> is_ascii s"
  by (auto simp: is_ascii_def list_all_iff host_char_ascii)

lemma host_char_lower: "host_char c \<Longrightarrow> host_char (lower_char c)"
  by (auto simp: host_char_def lower_char_def byte_of_def ascii_lower_def)

lemma space_heads: "list_all (\<lambda>e. \<not> host_char (hd e) \<and> \<not> host_char (last e)) space_encodings"
  by (simp add: space_encodings_def bytes_def host_char_def byte_of_def)

lemma space_head_not_host:
  "e \<in> set space_encodings \<Longrightarrow> \<not> host_char (hd e) \<and> \<not> host_char (last e)"
  using space_heads by (simp add: list_all_iff)

lemma leading_space_host:
  assumes "list_all host_char s"
  shows "leading_space s = None"
proof -
  have "\<not> has_prefix s e" if e: "e \<in> set space_encodings" for e
  proof
    assume "has_prefix s e"
    moreover have "hd e \<in> set e" using space_encodings_nonempty [OF e] by simp
    ultimately have "hd e \<in> set s" by (auto simp: has_prefix_iff)
    with assms e space_head_not_host show False by (auto simp: list_all_iff)
  qed
  then show ?thesis by (simp add: leading_space_def find_None_all)
qed

lemma trailing_space_host:
  assumes "list_all host_char s"
  shows "trailing_space s = None"
proof -
  have "\<not> has_suffix s e" if e: "e \<in> set space_encodings" for e
  proof
    assume "has_suffix s e"
    moreover have "last e \<in> set e" using e space_encodings_nonempty by simp
    ultimately have "last e \<in> set s" by (auto simp: has_suffix_iff)
    with assms e space_head_not_host show False by (auto simp: list_all_iff)
  qed
  then show ?thesis by (simp add: trailing_space_def find_None_all)
qed

lemma leading_space_host_head: "host_char c \<Longrightarrow> leading_space (c # s) = None"
proof -
  assume c: "host_char c"
  have "\<not> has_prefix (c # s) e" if e: "e \<in> set space_encodings" for e
    using c space_head_not_host [OF e] space_encodings_nonempty [OF e] by (cases e) auto
  then show ?thesis by (simp add: leading_space_def find_None_all)
qed

lemma trailing_space_newline: "trailing_space (s @ [newline]) = Some [newline]"
  by (simp add: trailing_space_def space_encodings_def bytes_def has_suffix_def newline_def char_code_eq)

lemma trim_space_host_newline:
  assumes "list_all host_char s" and "s \<noteq> []"
  shows "trim_space (s @ [newline]) = s"
proof -
  from assms have "leading_space (s @ [newline]) = None"
    by (cases s) (simp_all add: leading_space_host_head)
  then have "trim_space (s @ [newline]) = trim_right (s @ [newline])"
    by (simp add: trim_space_def trim_left_id)
  also have "\<dots> = trim_right s"
    by (simp add: trim_right.simps [of "s @ [newline]"] trailing_space_newline)
  also have "\<dots> = s" using assms by (simp add: trim_right_id trailing_space_host)
  finally show ?thesis .
qed

lemma trim_space_host [simp]: "list_all host_char s \<Longrightarrow> trim_space s = s"
  by (simp add: trim_space_id leading_space_host trailing_space_host)

lemma url_chars_not_host:
  "\<not> host_char (CHR ''/'')" "\<not> host_char (CHR ''?'')" "\<not> host_char (CHR ''#'')"
  "\<not> host_char (CHR ''@'')" "\<not> host_char (CHR '':'')" "\<not> host_char (CHR '']'')"
  by code_simp+

lemma host_chars_exclude:
  assumes "list_all host_char s"
  shows "set s \<inter> set ''/?#'' = {}" "CHR ''@'' \<notin> set s" "CHR '':'' \<notin> set s" "CHR '']'' \<notin> set s"
  using assms url_chars_not_host by (auto simp: list_all_iff)

lemma no_colon_no_scheme: "CHR '':'' \<notin> set s \<Longrightarrow> index_of s ''://'' = None"
  by (auto simp: index_of_None)

lemma strip_url_parts_host [simp]:
  assumes "list_all host_char s"
  shows "strip_url_parts s = s"
proof -
  note ex = host_chars_exclude [OF assms]
  have "index_of s ''://'' = None" using ex by (simp add: no_colon_no_scheme)
  moreover have "index_any s ''/?#'' = None" using ex by (simp only: index_any_None)
  ultimately show ?thesis
    using ex assms by (simp add: strip_url_parts_def last_index_None [THEN iffD2])
qed

lemma index_of_scheme:
  "CHR '':'' \<notin> set pre \<Longrightarrow> index_of (pre @ ''://'' @ rest) ''://'' = Some (length pre)"
  by (induction pre) auto

lemma strip_url_parts_scheme:
  assumes "CHR '':'' \<notin> set pre" and "index_of rest ''://'' = None"
  shows "strip_url_parts (pre @ ''://'' @ rest) = strip_url_parts rest"
  using assms(2) index_of_scheme [OF assms(1), of rest] by (simp add: strip_url_parts_def)

lemma idna_contractD:
  assumes "idna_contract X" and "x_to_ascii X s = Some a"
  shows "list_all host_char a" "is_ascii a" "x_to_ascii X (map lower_char a) = Some (map lower_char a)"
    "list_all host_char (map lower_char a)" "is_ascii (map lower_char a)"
proof -
  show a: "list_all host_char a" and "x_to_ascii X (map lower_char a) = Some (map lower_char a)"
    using assms by (auto simp: idna_contract_def)
  show "is_ascii a" using a by (rule host_chars_ascii)
  show b: "list_all host_char (map lower_char a)"
    using a by (auto simp: list_all_iff host_char_lower)
  show "is_ascii (map lower_char a)" using b by (rule host_chars_ascii)
qed

lemma no_trailing_dot:
  assumes "\<not> list_ex bad_label (split_on (CHR ''.'') s)"
  shows "\<not> has_suffix s ''.''"
proof
  assume "has_suffix s ''.''"
  then obtain t where "s = t @ CHR ''.'' # []" by (auto simp: has_suffix_iff)
  then have "[] \<in> set (split_on (CHR ''.'') s)" by (simp only: split_on_append) simp
  with assms show False by (auto dest: labels_ok)
qed

text \<open>How \<open>parse\<close> treats a string that is a plain host name already.\<close>

lemma parse_plain_host:
  assumes "list_all host_char s" and "s \<noteq> []" and "\<not> has_suffix s ''.''"
  shows "trim_space s = s" and "trim_suffix (strip_url_parts (trim_space s)) ''.'' = s"
  using assms by simp_all

section \<open>A concrete instance\<close>

text \<open>
  An ASCII-only profile and the default rule of the public suffix list (the last label): values
  of the parameters that satisfy both contracts.
\<close>

definition sample_name :: name where
  "sample_name =
     \<lparr>n_input = ''A.io'', n_ascii = ''a.io'', n_unicode = ''a.io'', n_tld = ''io'', n_suffix = ''io'', n_sld = ''a''\<rparr>"

definition plain_externals :: externals where
  "plain_externals =
     \<lparr>x_to_ascii = (\<lambda>s. if list_all host_char s then Some s else None), x_to_unicode = Some,
      x_public_suffix = after_last (CHR ''.''), x_lower_table = id,
      x_parse_time = (\<lambda>_ _. None), x_parse_http_time = (\<lambda>_. None),
      x_parse_json = (\<lambda>_. None),
      x_join_path = (\<lambda>base parts. Some (base @ concat (map (\<lambda>p. CHR ''/'' # p) parts))),
      x_url_host = (\<lambda>base. Some base)\<rparr>"

lemma plain_suffix_contract: "suffix_contract plain_externals"
  unfolding suffix_contract_def plain_externals_def
  using after_last_cases [of "CHR ''.''"] by simp blast

lemma plain_idna_contract: "idna_contract plain_externals"
  by (auto simp: idna_contract_def plain_externals_def list_all_iff host_char_lower)

lemma plain_parse_example:
  "parse plain_externals ''shop.example.com'' =
     Inr \<lparr>n_input = ''shop.example.com'', n_ascii = ''shop.example.com'',
          n_unicode = ''shop.example.com'', n_tld = ''com'', n_suffix = ''com'', n_sld = ''example''\<rparr>"
proof -
  let ?s = "''shop.example.com''"
  have host: "list_all host_char ?s" by (simp add: host_char_def byte_of_def)
  have low: "lower plain_externals ?s = ?s"
    by (simp add: to_lower_def is_ascii_def lower_char_def byte_of_def ascii_lower_def)
  have dots: "trim_suffix ?s ''.'' = ?s" "trim_suffix ?s ''.com'' = ''shop.example''"
    by (simp_all add: trim_suffix_def has_suffix_def)
  have lasts: "after_last (CHR ''.'') ?s = ''com''" "after_last (CHR ''.'') ''shop.example'' = ''example''"
    by (simp_all add: after_last_def)
  show ?thesis
    using host low dots lasts
    by (simp add: parse_def Let_def plain_externals_def contains_def bad_label_def)
qed

section \<open>Properties\<close>

text \<open>
  C26: a parsed name is a well-formed host name: at most 253 bytes, at least two labels, each of
  1 to 63 bytes; the TLD is its last label, and the name is not itself a public suffix.
\<close>

theorem parse_well_formed:
  assumes "parse X input = Inr n"
  shows "n_input n = input \<and> length (n_ascii n) \<le> 253 \<and>
    2 \<le> length (split_on (CHR ''.'') (n_ascii n)) \<and>
    (\<forall>l \<in> set (split_on (CHR ''.'') (n_ascii n)). l \<noteq> [] \<and> length l \<le> 63) \<and>
    n_tld n = last (split_on (CHR ''.'') (n_ascii n)) \<and> n_suffix n \<noteq> n_ascii n"
proof -
  from assms obtain c m where
    facts: "contains (n_ascii n) ''.''" "length (n_ascii n) \<le> 253"
      "\<not> list_ex bad_label (split_on (CHR ''.'') (n_ascii n))"
      "n_suffix n \<noteq> n_ascii n" "n_tld n = after_last (CHR ''.'') (n_ascii n)" "n_input n = input"
    by (rule parse_InrE)
  from facts(1) obtain a b where ab: "n_ascii n = a @ CHR ''.'' # b" by (auto simp: contains_iff)
  have "0 < length (split_on (CHR ''.'') a)" "0 < length (split_on (CHR ''.'') b)"
    by simp_all
  then have "2 \<le> length (split_on (CHR ''.'') (n_ascii n))"
    unfolding ab split_on_append length_append by linarith
  with facts labels_ok [OF facts(3)] show ?thesis by (auto simp: after_last_split)
qed

theorem parse_well_formed_witness:
  "n_tld \<lparr>n_input = ''shop.example.com'', n_ascii = ''shop.example.com'',
          n_unicode = ''shop.example.com'', n_tld = ''com'', n_suffix = ''com'', n_sld = ''example''\<rparr>
   = last (split_on (CHR ''.'') ''shop.example.com'')"
  using parse_well_formed [OF plain_parse_example] by simp

text \<open>
  The labels of a parsed name are some subdomain labels, then the label registered under the
  public suffix, then the labels of the suffix; the name can be registered directly exactly when
  there is no subdomain label.
\<close>

lemma parse_sld:
  assumes "suffix_contract X" and "parse X input = Inr n"
  shows "\<exists>sub. split_on (CHR ''.'') (n_ascii n) = sub @ [n_sld n] @ split_on (CHR ''.'') (n_suffix n) \<and>
    (registrable n \<longleftrightarrow> sub = [])"
proof -
  let ?d = "CHR ''.''"
  from assms(2) obtain c m where
    suf: "n_suffix n = x_public_suffix X (n_ascii n)" "n_suffix n \<noteq> n_ascii n"
    and sld: "n_sld n = after_last ?d (trim_suffix (n_ascii n) (''.'' @ n_suffix n))"
    by (rule parse_InrE)
  from assms(1) suf obtain p where p: "n_ascii n = p @ ''.'' @ n_suffix n"
    unfolding suffix_contract_def by metis
  then have sld_p: "n_sld n = last (split_on ?d p)"
    by (simp add: sld after_last_split)
  have labels: "split_on ?d (n_ascii n) = butlast (split_on ?d p) @ [n_sld n] @ split_on ?d (n_suffix n)"
    by (simp add: p split_on_append sld_p)
  have "registrable n \<longleftrightarrow> p = n_sld n" by (simp add: registrable_def p)
  also have "\<dots> \<longleftrightarrow> ?d \<notin> set p"
    using after_last_no_sep [of ?d p] after_last_absent [of ?d p] by (auto simp: sld_p after_last_split)
  also have "\<dots> \<longleftrightarrow> butlast (split_on ?d p) = []"
    using split_on_single [of ?d p] by (cases "split_on ?d p" rule: rev_cases) auto
  finally show ?thesis using labels by blast
qed

text \<open>
  C27: normalisation is stable: parsing the ASCII form of a parsed name gives the same name, so the
  cache key and the candidate lists built from ASCII names survive being parsed again.
\<close>

theorem parse_idempotent:
  assumes "idna_contract X" and "parse X input = Inr n"
  shows "parse X (n_ascii n) = Inr (n\<lparr>n_input := n_ascii n\<rparr>)"
proof -
  let ?d = "CHR ''.''"
  from assms(2) obtain c m where
    m: "x_to_ascii X c = Some m" and ascii: "n_ascii n = lower X m"
    and dot: "contains (n_ascii n) ''.''" and len: "length (n_ascii n) \<le> 253"
    and lab: "\<not> list_ex bad_label (split_on ?d (n_ascii n))"
    and rest: "n_suffix n = x_public_suffix X (n_ascii n)" "n_suffix n \<noteq> n_ascii n"
      "n_sld n = after_last ?d (trim_suffix (n_ascii n) (''.'' @ n_suffix n))"
      "n_tld n = after_last ?d (n_ascii n)" "n_tld n \<noteq> []"
      "n_unicode n = (case x_to_unicode X (n_ascii n) of None \<Rightarrow> n_ascii n | Some u \<Rightarrow> u)"
    by (rule parse_InrE)
  note idna = idna_contractD [OF assms(1) m]
  have a: "n_ascii n = map lower_char m" using ascii idna by (simp add: to_lower_ascii)
  have host: "list_all host_char (n_ascii n)" and "is_ascii (n_ascii n)"
    and again: "x_to_ascii X (n_ascii n) = Some (n_ascii n)"
    using idna by (simp_all add: a)
  then have low: "lower X (n_ascii n) = n_ascii n"
    by (simp add: to_lower_ascii a comp_def)
  have ne: "n_ascii n \<noteq> []" using dot by (auto simp: contains_iff)
  show ?thesis
    using host ne no_trailing_dot [OF lab] again low dot len lab rest
    by (simp add: parse_def Let_def)
qed

theorem parse_idempotent_witness:
  "\<exists>n. parse plain_externals ''shop.example.com'' = Inr n \<and>
       parse plain_externals (n_ascii n) = Inr (n\<lparr>n_input := n_ascii n\<rparr>)"
  using plain_parse_example parse_idempotent [OF plain_idna_contract plain_parse_example] by auto

text \<open>
  From a full URL, with scheme, user information, port and path, the host is what remains.
\<close>

lemma strip_url_parts_url:
  assumes "CHR '':'' \<notin> set scheme" and "set user \<inter> set ''/?#'' = {}"
    and "list_all host_char host" and "list_all host_char port"
  shows "strip_url_parts (scheme @ ''://'' @ user @ ''@'' @ host @ '':'' @ port @ ''/'' @ path) = host"
proof -
  let ?rest = "user @ ''@'' @ host @ '':'' @ port @ ''/'' @ path"
  have one: "index_of (scheme @ ''://'' @ ?rest) ''://'' = Some (length scheme)"
    using assms(1) by (rule index_of_scheme)
  note hx = host_chars_exclude [OF assms(3)] and px = host_chars_exclude [OF assms(4)]
  have two: "index_any ((user @ ''@'' @ host @ '':'' @ port) @ CHR ''/'' # path) ''/?#'' =
      Some (length (user @ ''@'' @ host @ '':'' @ port))"
    using assms(2) hx px by (intro index_any_first) auto
  have three: "last_index (user @ CHR ''@'' # (host @ '':'' @ port)) (CHR ''@'') = Some (length user)"
    using hx px by (intro last_index_last) auto
  have four: "last_index (host @ CHR '':'' # port) (CHR '':'') = Some (length host)"
    using px by (intro last_index_last) auto
  have five: "\<not> contains (host @ CHR '':'' # port) '']''"
    using hx px by (auto simp: contains_single)
  show ?thesis
    using one two three four five assms(3) by (simp add: strip_url_parts_def)
qed

text \<open>
  A URL inside the path or query of a pasted name wins over the name itself: the scheme
  separator is searched before path and query are cut off, so the answer is about another domain.
\<close>

lemma strip_url_parts_nested_url:
  assumes "CHR '':'' \<notin> set (host @ path)" and "list_all host_char other"
  shows "strip_url_parts (host @ ''/'' @ path @ ''://'' @ other) = other"
proof -
  have "strip_url_parts ((host @ ''/'' @ path) @ ''://'' @ other) = strip_url_parts other"
    using assms(1) no_colon_no_scheme [OF host_chars_exclude(3) [OF assms(2)]]
    by (intro strip_url_parts_scheme) auto
  with assms(2) show ?thesis by simp
qed

end
