(* ===== verification/World.thy ===== *)
theory World
  imports Core
begin

text \<open>
  The environment of the program as a record of operations over a state \<open>'w\<close> of the outside
  world: the clock, the context of the request, the token buckets of \<^theory_text>\<open>golang.org/x/time/rate\<close>,
  random numbers, timers and the network. \<open>e_with_timeout\<close> and \<open>e_cancel\<close> bracket the
  scope of a \<^theory_text>\<open>context.WithTimeout\<close>; inside it \<open>e_ctx_done\<close> and the blocking operations also obey its
  deadline. Reading the clock and the context changes nothing;
  every blocking operation may change the world (and so let time pass). A definition that takes
  an \<open>env\<close> is the code's, with these calls left open; a theorem holds for every environment.
\<close>

text \<open>What \<open>rate.Limiter.Wait\<close> returns: a token, the context's error, or a refusal to wait.\<close>

datatype rate_outcome = Granted | RateCancelled | RateRefused

text \<open>
  One HTTP exchange: the request cannot be built, a transport error, or a status code, the \<^theory_text>\<open>Retry-After\<close> header (empty when
  absent) and the body (\<open>None\<close> when reading it fails).
\<close>

datatype http_reply = HttpBadRequest | HttpFailed | HttpReply int string "string option"

text \<open>
  One WHOIS exchange: dialling or writing failed, or the bytes read until the end or an error
  (the flag tells that the read ended with an error).
\<close>

datatype whois_reply = WhoisDialFailed | WhoisWriteFailed | WhoisRead string bool

text \<open>An NS lookup: the host names found, the not-found error, or another error.\<close>

datatype ns_reply = NsRecords "string list" | NsNotFound | NsFailed

record 'w env =
  e_now :: "'w \<Rightarrow> time"
  e_ctx_done :: "'w \<Rightarrow> bool"
  e_rate_wait :: "string \<Rightarrow> 'w \<Rightarrow> rate_outcome \<times> 'w"
  e_rand :: "int \<Rightarrow> 'w \<Rightarrow> int \<times> 'w"
  e_timer :: "duration \<Rightarrow> 'w \<Rightarrow> bool \<times> 'w"
  e_acquire_slot :: "'w \<Rightarrow> bool \<times> 'w"
  e_release_slot :: "'w \<Rightarrow> 'w"
  e_with_timeout :: "duration \<Rightarrow> 'w \<Rightarrow> 'w"
  e_cancel :: "'w \<Rightarrow> 'w"
  e_http_get :: "string \<Rightarrow> 'w \<Rightarrow> http_reply \<times> 'w"
  e_whois :: "string \<Rightarrow> string \<Rightarrow> 'w \<Rightarrow> whois_reply \<times> 'w"
  e_lookup_ns :: "string \<Rightarrow> 'w \<Rightarrow> ns_reply \<times> 'w"

text \<open>\<^theory_text>\<open>rand.Int64N(n)\<close> returns a number in \<open>[0, n)\<close> for a positive \<open>n\<close>.\<close>

definition rand_contract :: "'w env \<Rightarrow> bool" where
  "rand_contract E = (\<forall>n w. 0 < n \<longrightarrow> 0 \<le> fst (e_rand E n w) \<and> fst (e_rand E n w) < n)"

definition ctx_err :: "'w env \<Rightarrow> 'w \<Rightarrow> go_error option" where
  "ctx_err E w = (if e_ctx_done E w then Some ContextErr else None)"

text \<open>
  A concrete world for examples: the time in nanoseconds, a context that is never done, tokens
  always granted, a timer that always fires, and scripted answers of the network.
\<close>

record script =
  sc_now :: time
  sc_http :: "http_reply list"
  sc_whois :: "whois_reply list"
  sc_ns :: "ns_reply list"

definition script_env :: "script env" where
  "script_env =
     \<lparr>e_now = sc_now, e_ctx_done = (\<lambda>w. False), e_rate_wait = (\<lambda>h w. (Granted, w)),
      e_rand = (\<lambda>n w. (0, w)), e_timer = (\<lambda>d w. (True, w\<lparr>sc_now := sc_now w + d\<rparr>)),
      e_acquire_slot = (\<lambda>w. (True, w)), e_release_slot = id, e_with_timeout = (\<lambda>d w. w), e_cancel = id,
      e_http_get = (\<lambda>u w. case sc_http w of
          [] \<Rightarrow> (HttpFailed, w) | r # rs \<Rightarrow> (r, w\<lparr>sc_http := rs\<rparr>)),
      e_whois = (\<lambda>s q w. case sc_whois w of
          [] \<Rightarrow> (WhoisDialFailed, w) | r # rs \<Rightarrow> (r, w\<lparr>sc_whois := rs\<rparr>)),
      e_lookup_ns = (\<lambda>n w. case sc_ns w of
          [] \<Rightarrow> (NsFailed, w) | r # rs \<Rightarrow> (r, w\<lparr>sc_ns := rs\<rparr>))\<rparr>"

definition idle_script :: script where
  "idle_script = \<lparr>sc_now = 0, sc_http = [], sc_whois = [], sc_ns = []\<rparr>"

lemma script_env_simps [simp]:
  "e_now script_env w = sc_now w"
  "e_ctx_done script_env w = False"
  "e_rate_wait script_env h w = (Granted, w)"
  "e_rand script_env n w = (0, w)"
  "e_timer script_env d w = (True, w\<lparr>sc_now := sc_now w + d\<rparr>)"
  "e_acquire_slot script_env w = (True, w)"
  "e_release_slot script_env w = w" "e_with_timeout script_env d w = w" "e_cancel script_env w = w"
  by (simp_all add: script_env_def)

lemma script_env_net [simp]:
  "e_http_get script_env u w =
     (case sc_http w of [] \<Rightarrow> (HttpFailed, w) | r # rs \<Rightarrow> (r, w\<lparr>sc_http := rs\<rparr>))"
  "e_whois script_env s q w =
     (case sc_whois w of [] \<Rightarrow> (WhoisDialFailed, w) | r # rs \<Rightarrow> (r, w\<lparr>sc_whois := rs\<rparr>))"
  "e_lookup_ns script_env n w =
     (case sc_ns w of [] \<Rightarrow> (NsFailed, w) | r # rs \<Rightarrow> (r, w\<lparr>sc_ns := rs\<rparr>))"
  by (simp_all add: script_env_def)

text \<open>Updates of a scripted world, in a normal form: the network before the clock.\<close>

lemma script_update_swap [simp]: "w\<lparr>sc_now := t, sc_http := replies\<rparr> = w\<lparr>sc_http := replies, sc_now := t\<rparr>"
  by (cases w) simp

lemma script_rand_contract: "rand_contract script_env"
  by (simp add: rand_contract_def)

end
