(* ===== verification/Provider.thy ===== *)
theory Provider
  imports DomainName World
begin

text \<open>
  \<^theory_text>\<open>internal/provider/provider.go\<close>: the interface of a source. A provider is a name with two
  operations over a state \<open>'s\<close> that holds everything the sources share (their caches, the limiters,
  the world). The locale states what the engine relies on; every source interprets it.
\<close>

record 's provider =
  pv_name :: string
  pv_supports :: "name \<Rightarrow> 's \<Rightarrow> bool \<times> 's"
  pv_check :: "name \<Rightarrow> 's \<Rightarrow> provider_result res \<times> 's"

text \<open>
  A coherent result carries the provider's name (or none, which the engine fills in), tags its
  evidence with that name, has a detail status that fits the registration status, and carries
  details only for a registered name.
\<close>

definition tagged_by :: "string \<Rightarrow> string list \<Rightarrow> bool" where
  "tagged_by p ev = list_all (\<lambda>e. has_prefix e (p @ '':'')) ev"

definition coherent :: "string \<Rightarrow> provider_result \<Rightarrow> bool" where
  "coherent p r =
     ((pr_provider r = p \<or> pr_provider r = []) \<and> tagged_by p (pr_evidence r) \<and>
      (pr_registration r = RegistrationNotRegistered \<longrightarrow> pr_status r = StatusAvailable) \<and>
      (pr_registration r = RegistrationRegistered \<longrightarrow>
         pr_status r \<in> {StatusRegistered, StatusReserved, StatusBlocked, StatusPendingDelete, StatusRedemption}) \<and>
      (\<forall>i. pr_info r = Some i \<longrightarrow> pr_registration r = RegistrationRegistered \<and> di_registered i))"

lemma tagged_by_simps [simp]:
  "tagged_by p []"
  "tagged_by p (e # es) \<longleftrightarrow> has_prefix e (p @ '':'') \<and> tagged_by p es"
  "tagged_by p (xs @ ys) \<longleftrightarrow> tagged_by p xs \<and> tagged_by p ys"
  by (simp_all add: tagged_by_def)

lemma evidence_tag_prefix [simp]: "has_prefix (evidence_tag p t) (p @ '':'')"
  by (simp add: evidence_tag_def has_prefix_iff)

lemma coherent_zero [simp]: "coherent p zero_result"
  by (simp add: coherent_def zero_result_def)

lemma coherent_latency [simp]: "coherent p (r\<lparr>pr_latency_ms := l\<rparr>) = coherent p r"
  by (simp add: coherent_def)

locale source_contract =
  fixes pname :: string
    and check :: "name \<Rightarrow> 's \<Rightarrow> provider_result res \<times> 's"
    and conclusive_free :: bool
  assumes check_coherent: "fst (check n s) = Ok r \<Longrightarrow> coherent pname r"
    and check_free: "fst (check n s) = Ok r \<Longrightarrow> \<not> conclusive_free \<Longrightarrow>
      pr_registration r \<noteq> RegistrationNotRegistered \<and> pr_info r = None"
begin

text \<open>Naming an unnamed result: what the engine does to every answer.\<close>

lemma named_result:
  assumes "fst (check n s) = Ok r"
  shows "pr_provider (if pr_provider r = [] then r\<lparr>pr_provider := pname\<rparr> else r) = pname"
    and "coherent pname (if pr_provider r = [] then r\<lparr>pr_provider := pname\<rparr> else r)"
  using check_coherent [OF assms] by (auto simp: coherent_def)

end

end
