(* ===== verification/Resolver.thy ===== *)
theory Resolver
  imports Core
begin

text \<open>
  \<^theory_text>\<open>internal/engine/resolver.go\<close>: reconciling the findings of the sources into one verdict.
\<close>

record resolution =
  rs_availability :: availability
  rs_status :: status
  rs_confidence :: confidence
  rs_evidence :: "string list"
  rs_conflict :: bool

text \<open>The loop over the results: the last result of each source, and all evidence in order.\<close>

record found =
  f_rdap :: "provider_result option"
  f_whois :: "provider_result option"
  f_dns :: "provider_result option"
  f_evidence :: "string list"

definition scan_step :: "provider_result \<Rightarrow> found \<Rightarrow> found" where
  "scan_step r f =
     (let f1 = f\<lparr>f_evidence := f_evidence f @ pr_evidence r\<rparr>
      in if pr_provider r = rdap_name then f1\<lparr>f_rdap := Some r\<rparr>
         else if pr_provider r = whois_name then f1\<lparr>f_whois := Some r\<rparr>
         else if pr_provider r = dns_name then f1\<lparr>f_dns := Some r\<rparr>
         else f1)"

fun scan_results :: "provider_result list \<Rightarrow> found \<Rightarrow> found" where
  "scan_results [] f = f"
| "scan_results (r # rs) f = scan_results rs (scan_step r f)"

definition nothing_found :: found where
  "nothing_found = \<lparr>f_rdap = None, f_whois = None, f_dns = None, f_evidence = []\<rparr>"

definition decide :: "found \<Rightarrow> resolution" where
  "decide f =
     (let evidence = sort_strings (f_evidence f);
          delegated = (case f_dns f of None \<Rightarrow> False | Some d \<Rightarrow> pr_registration d = RegistrationRegistered);
          answer = (\<lambda>a s c x. \<lparr>rs_availability = a, rs_status = s, rs_confidence = c,
                               rs_evidence = evidence, rs_conflict = x\<rparr>);
          undecided =
            (if delegated
             then answer AvailabilityUnavailable StatusRegistered ConfidenceMedium False
             else answer AvailabilityUnknown
                    (case f_rdap f of
                       Some r \<Rightarrow> if pr_status r = StatusRateLimited then StatusRateLimited else StatusUnknown
                     | None \<Rightarrow> StatusUnknown)
                    ConfidenceLow False);
          by_whois =
            (case f_whois f of
               None \<Rightarrow> undecided
             | Some w \<Rightarrow>
                 (case pr_registration w of
                    RegistrationRegistered \<Rightarrow>
                      answer AvailabilityUnavailable (pr_status w) ConfidenceHigh False
                  | RegistrationNotRegistered \<Rightarrow>
                      if delegated
                      then answer AvailabilityUnknown StatusUnknown ConfidenceLow True
                      else answer AvailabilityAvailable StatusAvailable ConfidenceMedium False
                  | _ \<Rightarrow> undecided))
      in case f_rdap f of
           None \<Rightarrow> by_whois
         | Some r \<Rightarrow>
             (case pr_registration r of
                RegistrationRegistered \<Rightarrow>
                  answer AvailabilityUnavailable (pr_status r) ConfidenceHigh False
              | RegistrationNotRegistered \<Rightarrow>
                  if delegated
                  then answer AvailabilityAvailable StatusAvailable ConfidenceLow True
                  else if (case f_whois f of None \<Rightarrow> False
                           | Some w \<Rightarrow> pr_registration w = RegistrationRegistered)
                  then answer AvailabilityAvailable StatusAvailable ConfidenceLow True
                  else answer AvailabilityAvailable StatusAvailable ConfidenceHigh False
              | _ \<Rightarrow> by_whois))"

definition resolve :: "provider_result list \<Rightarrow> resolution" where
  "resolve results = decide (scan_results results nothing_found)"

section \<open>What the loop finds\<close>

definition last_of :: "string \<Rightarrow> provider_result list \<Rightarrow> provider_result option" where
  "last_of p rs = find (\<lambda>r. pr_provider r = p) (rev rs)"

lemma find_append: "find P (xs @ ys) = (case find P xs of None \<Rightarrow> find P ys | Some x \<Rightarrow> Some x)"
  by (induction xs) auto

lemma scan_results_eq:
  "scan_results rs f =
     \<lparr>f_rdap = (case last_of rdap_name rs of None \<Rightarrow> f_rdap f | Some r \<Rightarrow> Some r),
      f_whois = (case last_of whois_name rs of None \<Rightarrow> f_whois f | Some r \<Rightarrow> Some r),
      f_dns = (case last_of dns_name rs of None \<Rightarrow> f_dns f | Some r \<Rightarrow> Some r),
      f_evidence = f_evidence f @ concat (map pr_evidence rs)\<rparr>"
  by (induction rs arbitrary: f)
     (auto simp: last_of_def find_append scan_step_def Let_def split: option.splits)

lemma scan_nothing:
  "scan_results rs nothing_found =
     \<lparr>f_rdap = last_of rdap_name rs, f_whois = last_of whois_name rs, f_dns = last_of dns_name rs,
      f_evidence = concat (map pr_evidence rs)\<rparr>"
  by (simp add: scan_results_eq nothing_found_def split: option.splits)

lemma last_of_Some: "last_of p rs = Some r \<Longrightarrow> r \<in> set rs \<and> pr_provider r = p"
  unfolding last_of_def by (auto dest: find_Some_in)

lemma last_of_None: "last_of p rs = None \<longleftrightarrow> (\<forall>r \<in> set rs. pr_provider r \<noteq> p)"
  unfolding last_of_def by (simp add: find_None_all)

lemma last_of_unique:
  assumes "distinct (map pr_provider rs)" and "r \<in> set rs"
  shows "last_of (pr_provider r) rs = Some r"
proof (cases "last_of (pr_provider r) rs")
  case None
  with assms(2) show ?thesis by (auto simp: last_of_None)
next
  case (Some q)
  with last_of_Some have "q \<in> set rs" "pr_provider q = pr_provider r" by auto
  with assms have "q = r" by (auto simp: distinct_map inj_on_def)
  with Some show ?thesis by simp
qed

lemma last_of_mset_cong:
  assumes "mset rs = mset qs" and "distinct (map pr_provider rs)"
  shows "last_of p rs = last_of p qs"
proof -
  have sets: "set rs = set qs" using assms(1) by (rule mset_eq_setD)
  have "mset (map pr_provider rs) = mset (map pr_provider qs)"
    using assms(1) by (simp add: mset_map)
  then have dist: "distinct (map pr_provider qs)"
    using assms(2) by (metis mset_eq_imp_distinct_iff)
  show ?thesis
  proof (cases "last_of p rs")
    case None
    then have "last_of p qs = None" by (simp add: last_of_None sets)
    with None show ?thesis by simp
  next
    case (Some r)
    with last_of_Some sets have "r \<in> set qs" "pr_provider r = p" by auto
    with dist Some show ?thesis using last_of_unique by metis
  qed
qed

lemma evidence_mset_cong:
  assumes "mset rs = mset qs"
  shows "sort_strings (concat (map pr_evidence rs)) = sort_strings (concat (map pr_evidence qs))"
proof (rule sort_strings_cong)
  have flat: "mset (concat (map pr_evidence xs)) = \<Sum>\<^sub># (image_mset (\<lambda>r. mset (pr_evidence r)) (mset xs))" for xs
    by (induction xs) simp_all
  show "mset (concat (map pr_evidence rs)) = mset (concat (map pr_evidence qs))"
    by (simp only: flat assms)
qed

lemma rs_evidence_decide: "rs_evidence (decide f) = sort_strings (f_evidence f)"
  by (auto simp: decide_def Let_def split: option.splits registration_status.splits)

lemma decide_available:
  "rs_availability (decide f) = AvailabilityAvailable \<Longrightarrow>
   (\<exists>r. f_rdap f = Some r \<and> pr_registration r = RegistrationNotRegistered) \<or>
   (\<exists>w. f_whois f = Some w \<and> pr_registration w = RegistrationNotRegistered \<and>
        (\<forall>r. f_rdap f = Some r \<longrightarrow> pr_registration r \<noteq> RegistrationRegistered) \<and>
        (\<forall>d. f_dns f = Some d \<longrightarrow> pr_registration d \<noteq> RegistrationRegistered) \<and>
        rs_confidence (decide f) = ConfidenceMedium)"
  by (auto simp: decide_def Let_def split: option.splits registration_status.splits if_splits)

lemma decide_conflict:
  "rs_conflict (decide f) \<Longrightarrow>
   rs_confidence (decide f) = ConfidenceLow \<and>
   (\<exists>q. (f_rdap f = Some q \<or> f_whois f = Some q) \<and> pr_registration q = RegistrationNotRegistered) \<and>
   (\<exists>q. (f_dns f = Some q \<or> f_whois f = Some q) \<and> pr_registration q = RegistrationRegistered)"
  by (auto simp: decide_def Let_def split: option.splits registration_status.splits if_splits)

lemma decide_high:
  "rs_confidence (decide f) = ConfidenceHigh \<Longrightarrow>
   \<exists>q. (f_rdap f = Some q \<or> f_whois f = Some q) \<and>
       pr_registration q \<in> {RegistrationRegistered, RegistrationNotRegistered}"
  by (auto simp: decide_def Let_def split: option.splits registration_status.splits if_splits)

lemma decide_cong:
  assumes "f_rdap f = f_rdap g" "f_whois f = f_whois g" "f_dns f = f_dns g"
    and "sort_strings (f_evidence f) = sort_strings (f_evidence g)"
  shows "decide f = decide g"
  by (simp only: decide_def assms)

lemma decide_map:
  assumes "\<And>q. pr_registration (h q) = pr_registration q" "\<And>q. pr_status (h q) = pr_status q"
    and "f_rdap f = map_option h (f_rdap g)" "f_whois f = map_option h (f_whois g)"
    and "f_dns f = map_option h (f_dns g)" "f_evidence f = f_evidence g"
  shows "decide f = decide g"
  by (cases "f_rdap g"; cases "f_whois g"; cases "f_dns g") (simp_all add: decide_def Let_def assms cong: registration_status.case_cong)

text \<open>What the last result of a source says.\<close>

definition says :: "string \<Rightarrow> registration_status \<Rightarrow> provider_result list \<Rightarrow> bool" where
  "says p st results = (\<exists>r. last_of p results = Some r \<and> pr_registration r = st)"

text \<open>The same without an order: some result of the source says it.\<close>

definition claims :: "string \<Rightarrow> registration_status \<Rightarrow> provider_result list \<Rightarrow> bool" where
  "claims p st results = (\<exists>r \<in> set results. pr_provider r = p \<and> pr_registration r = st)"

lemma claims_says: "distinct (map pr_provider results) \<Longrightarrow> claims p st results = says p st results"
  unfolding claims_def says_def using last_of_unique last_of_Some by metis

definition rdap_free :: provider_result where
  "rdap_free = zero_result\<lparr>pr_provider := rdap_name, pr_registration := RegistrationNotRegistered\<rparr>"

definition dns_taken :: provider_result where
  "dns_taken = zero_result\<lparr>pr_provider := dns_name, pr_registration := RegistrationRegistered\<rparr>"

lemma resolve_conflict_cases:
  "rs_conflict (resolve results) \<longleftrightarrow>
   (if says rdap_name RegistrationNotRegistered results
    then says dns_name RegistrationRegistered results \<or> says whois_name RegistrationRegistered results
    else \<not> says rdap_name RegistrationRegistered results \<and>
         says whois_name RegistrationNotRegistered results \<and> says dns_name RegistrationRegistered results)"
  by (auto simp: resolve_def scan_nothing decide_def Let_def says_def
      split: option.splits registration_status.splits)

lemma resolve_mset_cong:
  assumes "mset results = mset others" and "distinct (map pr_provider results)"
  shows "resolve results = resolve others"
  using last_of_mset_cong [OF assms] evidence_mset_cong [OF assms(1)]
  unfolding resolve_def scan_nothing by (intro decide_cong) simp_all

section \<open>Properties\<close>

text \<open>
  C6: the answer \<open>available\<close> needs a registry or WHOIS that says \<open>not registered\<close>; on WHOIS alone it
  has at most medium confidence, and neither RDAP nor a delegation contradicts it.
\<close>

theorem resolve_available_needs_source:
  assumes "rs_availability (resolve results) = AvailabilityAvailable"
  shows "(\<exists>r \<in> set results. pr_provider r = rdap_name \<and> pr_registration r = RegistrationNotRegistered) \<or>
    (\<exists>r \<in> set results. pr_provider r = whois_name \<and> pr_registration r = RegistrationNotRegistered \<and>
       rs_confidence (resolve results) \<le> ConfidenceMedium \<and>
       (\<forall>q. last_of rdap_name results = Some q \<longrightarrow> pr_registration q \<noteq> RegistrationRegistered) \<and>
       (\<forall>q. last_of dns_name results = Some q \<longrightarrow> pr_registration q \<noteq> RegistrationRegistered))"
  using decide_available [OF assms [unfolded resolve_def]]
  by (auto simp: resolve_def scan_nothing confidence_le_medium dest: last_of_Some)

theorem resolve_available_needs_source_witness:
  "\<exists>r. pr_provider r = rdap_name \<and> rs_availability (resolve [r]) = AvailabilityAvailable \<and>
    pr_registration r = RegistrationNotRegistered"
proof -
  let ?r = "zero_result\<lparr>pr_provider := rdap_name, pr_registration := RegistrationNotRegistered\<rparr>"
  have "rs_availability (resolve [?r]) = AvailabilityAvailable"
    by (simp add: resolve_def scan_step_def nothing_found_def decide_def Let_def)
  from resolve_available_needs_source [OF this] this show ?thesis by (intro exI [of _ ?r]) simp
qed

text \<open>
  Results of different sources may arrive in any order: the verdict, its confidence and its
  evidence do not depend on it.
\<close>

lemma resolve_order_independent:
  assumes "mset results = mset others" and "distinct (map pr_provider results)"
  shows "resolve results = resolve others"
  using assms by (rule resolve_mset_cong)

text \<open>
  A registered RDAP object decides alone: unavailable, with the object's status and high
  confidence, without a conflict, whatever the other sources say.
\<close>

lemma resolve_rdap_registered:
  assumes "last_of rdap_name results = Some r" and "pr_registration r = RegistrationRegistered"
  shows "resolve results =
    \<lparr>rs_availability = AvailabilityUnavailable, rs_status = pr_status r, rs_confidence = ConfidenceHigh,
     rs_evidence = sort_strings (concat (map pr_evidence results)), rs_conflict = False\<rparr>"
  using assms by (simp add: resolve_def scan_nothing decide_def)

text \<open>The proof of the table below.\<close>

lemma resolve_table_facts:
  assumes "distinct (map pr_provider results)" and "mset results = mset others"
  defines "rdap \<equiv> \<lambda>st. claims rdap_name st results" and "whois \<equiv> \<lambda>st. claims whois_name st results"
    and "delegated \<equiv> claims dns_name RegistrationRegistered results" and "v \<equiv> resolve others"
  shows "rs_availability v =
      (if rdap RegistrationRegistered then AvailabilityUnavailable
       else if rdap RegistrationNotRegistered then AvailabilityAvailable
       else if whois RegistrationRegistered then AvailabilityUnavailable
       else if whois RegistrationNotRegistered then (if delegated then AvailabilityUnknown else AvailabilityAvailable)
       else if delegated then AvailabilityUnavailable else AvailabilityUnknown) \<and>
    rs_confidence v =
      (if rdap RegistrationRegistered then ConfidenceHigh
       else if rdap RegistrationNotRegistered
       then (if delegated \<or> whois RegistrationRegistered then ConfidenceLow else ConfidenceHigh)
       else if whois RegistrationRegistered then ConfidenceHigh
       else if whois RegistrationNotRegistered = delegated then ConfidenceLow else ConfidenceMedium) \<and>
    rs_conflict v =
      (\<not> rdap RegistrationRegistered \<and>
       (if rdap RegistrationNotRegistered then delegated \<or> whois RegistrationRegistered
        else whois RegistrationNotRegistered \<and> delegated)) \<and>
    (\<forall>r \<in> set results. pr_registration r = RegistrationRegistered \<and>
       (pr_provider r = rdap_name \<or>
        pr_provider r = whois_name \<and> \<not> rdap RegistrationRegistered \<and> \<not> rdap RegistrationNotRegistered) \<longrightarrow>
       rs_status v = pr_status r) \<and>
    rs_evidence v = sort_strings (concat (map pr_evidence results))"
proof -
  have v: "v = resolve results" unfolding v_def using assms(1,2) resolve_mset_cong by metis
  have says: "claims p st results = says p st results" for p st by (rule claims_says [OF assms(1)])
  have found: "last_of (pr_provider r) results = Some r" if "r \<in> set results" for r
    using last_of_unique [OF assms(1) that] .
  have "rs_status (resolve results) = pr_status r"
    if "r \<in> set results" "pr_registration r = RegistrationRegistered"
      "pr_provider r = rdap_name \<or> pr_provider r = whois_name \<and>
        \<not> says rdap_name RegistrationRegistered results \<and> \<not> says rdap_name RegistrationNotRegistered results" for r
    using that found [OF that(1)]
    by (auto simp: resolve_def scan_nothing decide_def Let_def says_def split: option.splits registration_status.splits)
  then show ?thesis
    unfolding v rdap_def whois_def delegated_def says
    by (cases "last_of rdap_name results"; cases "last_of whois_name results"; cases "last_of dns_name results")
       (auto simp: resolve_def scan_nothing decide_def Let_def says_def split: registration_status.splits)
qed

lemma resolve_available_status: "rs_availability (resolve results) = AvailabilityAvailable \<Longrightarrow> rs_status (resolve results) = StatusAvailable"
  by (auto simp: resolve_def decide_def Let_def split: option.splits registration_status.splits if_splits)



text \<open>
  With no registry answer, a registered WHOIS record gives the confidence \<open>high\<close>, the same as
  a registered RDAP object.
\<close>

lemma resolve_whois_registered_high:
  assumes "\<not> says rdap_name RegistrationRegistered results" "\<not> says rdap_name RegistrationNotRegistered results"
    and "last_of whois_name results = Some r" and "pr_registration r = RegistrationRegistered"
  shows "rs_availability (resolve results) = AvailabilityUnavailable \<and> rs_status (resolve results) = pr_status r \<and>
    rs_confidence (resolve results) = ConfidenceHigh \<and> \<not> rs_conflict (resolve results)"
  using assms
  by (auto simp: resolve_def scan_nothing decide_def says_def Let_def split: option.splits registration_status.splits)

end
