(* ===== verification/Expiry.thy ===== *)
theory Expiry
  imports Prelude
begin

text \<open>
  The contract shared by the two memo tables of the program (the WHOIS servers of the TLDs and the
  results of checks): a value put at a time is found until its lifetime has passed, values with
  no positive lifetime are not stored, and keys do not disturb each other.
\<close>

locale expiring_store =
  fixes look :: "'s \<Rightarrow> 'k \<Rightarrow> time \<Rightarrow> 'v option"
    and put :: "'k \<Rightarrow> 'v \<Rightarrow> time \<Rightarrow> 's \<Rightarrow> 's"
    and empty :: 's
    and life :: "'v \<Rightarrow> duration"
  assumes look_empty: "look empty k u = None"
    and look_put: "look (put k v t s) j u =
      (if j = k \<and> 0 < life v then (if u < t + life v then Some v else None) else look s j u)"
begin

lemma look_other_puts:
  "\<forall>(j, v, t) \<in> set ps. j \<noteq> k \<Longrightarrow> look (fold (\<lambda>(j, v, t). put j v t) ps s) k u = look s k u"
  by (induction ps arbitrary: s) (auto simp: look_put)

lemma look_fresh:
  assumes "0 < life v" and "u < t + life v" and "\<forall>(j, w, r) \<in> set ps. j \<noteq> k"
  shows "look (fold (\<lambda>(j, v, t). put j v t) ps (put k v t s)) k u = Some v"
  using assms by (simp add: look_other_puts look_put)

lemma look_expired:
  assumes "0 < life v" and "t + life v \<le> u" and "\<forall>(j, w, r) \<in> set ps. j \<noteq> k"
  shows "look (fold (\<lambda>(j, v, t). put j v t) ps (put k v t s)) k u = None"
  using assms by (simp add: look_other_puts look_put)

text \<open>Nothing is found that was not put under the same key and is not still alive.\<close>

lemma look_sound:
  "look (fold (\<lambda>(j, v, t). put j v t) ps empty) k u = Some v \<Longrightarrow>
   \<exists>t. (k, v, t) \<in> set ps \<and> 0 < life v \<and> u < t + life v"
proof (induction ps rule: rev_induct)
  case Nil
  then show ?case by (simp add: look_empty)
next
  case (snoc p ps)
  obtain j x r where p: "p = (j, x, r)" by (cases p)
  from snoc show ?case by (auto simp: p look_put split: if_splits)
qed

end

end
