(* ===== verification/Cache.thy ===== *)
theory Cache
  imports Core Expiry
begin

text \<open>
  \<^theory_text>\<open>internal/engine/cache.go\<close>: the memo table of the engine, by ASCII name, with a lifetime per
  outcome. The mutex makes each operation atomic; the clock is an argument.
\<close>

record cache_ttl =
  ct_available :: duration
  ct_unavailable :: duration
  ct_unknown :: duration

definition lifetime :: "cache_ttl \<Rightarrow> availability \<Rightarrow> duration" where
  "lifetime t a =
     (case a of
        AvailabilityAvailable \<Rightarrow> ct_available t
      | AvailabilityUnavailable \<Rightarrow> ct_unavailable t
      | AvailabilityUnknown \<Rightarrow> ct_unknown t)"

record cache_entry =
  ce_result :: check_result
  ce_expires_at :: time

type_synonym entries = "string \<rightharpoonup> cache_entry"

definition new_result_cache :: entries where [simp]: "new_result_cache = Map.empty"

definition cache_get :: "time \<Rightarrow> string \<Rightarrow> entries \<Rightarrow> check_result option \<times> entries" where
  "cache_get now key m =
     (case m key of
        None \<Rightarrow> (None, m)
      | Some entry \<Rightarrow>
          if \<not> now < ce_expires_at entry then (None, m(key := None))
          else (Some ((ce_result entry)\<lparr>cr_cached := True\<rparr>), m))"

definition cache_put :: "cache_ttl \<Rightarrow> time \<Rightarrow> string \<Rightarrow> check_result \<Rightarrow> entries \<Rightarrow> entries" where
  "cache_put ttl now key result m =
     (let life = lifetime ttl (cr_availability result)
      in if life \<le> 0 then m
         else m(key \<mapsto> \<lparr>ce_result = result, ce_expires_at = now + life\<rparr>))"

definition cache_purge :: "time \<Rightarrow> entries \<Rightarrow> entries" where
  "cache_purge now m =
     (\<lambda>key. case m key of
        None \<Rightarrow> None
      | Some entry \<Rightarrow> if \<not> now < ce_expires_at entry then None else Some entry)"

section \<open>Lemmas\<close>

text \<open>The result found under a key, before the mark \<open>Cached\<close>: the view of the shared contract.\<close>

definition cache_look :: "entries \<Rightarrow> string \<Rightarrow> time \<Rightarrow> check_result option" where
  "cache_look m key now =
     (case m key of
        None \<Rightarrow> None
      | Some entry \<Rightarrow> if now < ce_expires_at entry then Some (ce_result entry) else None)"

lemma cache_get_look:
  "fst (cache_get now key m) = map_option (\<lambda>r. r\<lparr>cr_cached := True\<rparr>) (cache_look m key now)"
  by (simp add: cache_get_def cache_look_def split: option.split)

lemma cache_get_keeps: "now \<le> u \<Longrightarrow> cache_look (snd (cache_get now key m)) k u = cache_look m k u"
  by (cases "m key") (auto simp: cache_get_def cache_look_def)

lemma cache_purge_keeps: "now \<le> u \<Longrightarrow> cache_look (cache_purge now m) k u = cache_look m k u"
  by (cases "m k") (auto simp: cache_purge_def cache_look_def)

interpretation results: expiring_store cache_look "\<lambda>key r t. cache_put ttl t key r" Map.empty
    "\<lambda>r. lifetime ttl (cr_availability r)" for ttl
  by unfold_locales (auto simp: cache_look_def cache_put_def Let_def)

text \<open>The operations of a run of the cache, in time order.\<close>

datatype cache_op = PutOp string check_result | GetOp string | PurgeOp

fun cache_run :: "cache_ttl \<Rightarrow> (time \<times> cache_op) list \<Rightarrow> entries \<Rightarrow> entries" where
  "cache_run ttl [] m = m"
| "cache_run ttl ((t, op) # ops) m =
     cache_run ttl ops
       (case op of
          PutOp key r \<Rightarrow> cache_put ttl t key r m
        | GetOp key \<Rightarrow> snd (cache_get t key m)
        | PurgeOp \<Rightarrow> cache_purge t m)"

definition puts_of :: "(time \<times> cache_op) list \<Rightarrow> (string \<times> check_result \<times> time) list" where
  "puts_of ops = List.map_filter (\<lambda>(t, op). case op of PutOp key r \<Rightarrow> Some (key, r, t) | _ \<Rightarrow> None) ops"

lemma puts_of_simps [simp]:
  "puts_of [] = []"
  "puts_of ((t, PutOp key r) # ops) = (key, r, t) # puts_of ops"
  "puts_of ((t, GetOp key) # ops) = puts_of ops"
  "puts_of ((t, PurgeOp) # ops) = puts_of ops"
  by (simp_all add: puts_of_def map_filter_simps)

text \<open>Lookups and purges only drop what no later lookup would find.\<close>

lemma cache_look_cong_run:
  assumes "\<forall>v. u0 \<le> v \<longrightarrow> cache_look m k v = cache_look m2 k v" and "\<forall>(t, op) \<in> set ops. u0 \<le> t"
    and "sorted (map fst ops)" and "\<forall>(t, op) \<in> set ops. t \<le> u" and "u0 \<le> u"
  shows "cache_look (cache_run ttl ops m) k u =
    cache_look (fold (\<lambda>(key, r, t). cache_put ttl t key r) (puts_of ops) m2) k u"
  using assms
proof (induction ops arbitrary: m m2 u0)
  case Nil
  then show ?case by simp
next
  case (Cons p ops)
  obtain t op where p: "p = (t, op)" by (cases p)
  from Cons.prems p have t: "u0 \<le> t" "t \<le> u" "sorted (map fst ops)"
    "\<forall>(t', op) \<in> set ops. t \<le> t'" "\<forall>(t', op) \<in> set ops. t' \<le> u" by auto
  note IH = Cons.IH [where ?u0.0 = t, OF _ t(4,3,5,2)]
  show ?case
  proof (cases op)
    case (PutOp key r)
    have "\<forall>v. t \<le> v \<longrightarrow> cache_look (cache_put ttl t key r m) k v = cache_look (cache_put ttl t key r m2) k v"
      using Cons.prems(1) t(1) by (auto simp: results.look_put)
    from IH [OF this] show ?thesis by (simp add: p PutOp)
  next
    case (GetOp key)
    have "\<forall>v. t \<le> v \<longrightarrow> cache_look (snd (cache_get t key m)) k v = cache_look m2 k v"
      using Cons.prems(1) t(1) by (simp add: cache_get_keeps)
    from IH [OF this] show ?thesis by (simp add: p GetOp)
  next
    case PurgeOp
    have "\<forall>v. t \<le> v \<longrightarrow> cache_look (cache_purge t m) k v = cache_look m2 k v"
      using Cons.prems(1) t(1) by (simp add: cache_purge_keeps)
    from IH [OF this] show ?thesis by (simp add: p PurgeOp)
  qed
qed

text \<open>Nothing expired comes into the cache: stores add entries that expire later.\<close>

lemma cache_run_unexpired:
  assumes "\<forall>k e. m k = Some e \<longrightarrow> p < ce_expires_at e" and "\<forall>(t, op) \<in> set ops. p \<le> t"
  shows "\<forall>k e. cache_run ttl ops m k = Some e \<longrightarrow> p < ce_expires_at e"
  using assms
proof (induction ttl ops m rule: cache_run.induct)
  case (2 ttl t op ops m)
  have "\<forall>k e. (case op of PutOp key r \<Rightarrow> cache_put ttl t key r m | GetOp key \<Rightarrow> snd (cache_get t key m)
      | PurgeOp \<Rightarrow> cache_purge t m) k = Some e \<longrightarrow> p < ce_expires_at e"
    using 2(2,3)
    by (cases op) (auto simp: cache_put_def cache_get_def cache_purge_def Let_def split: option.splits if_splits)
  with 2 show ?case by simp
qed simp

section \<open>Properties\<close>

text \<open>
  C19: whatever lookups, stores and purges came before, in time order, a lookup finds a result only
  if that result was stored under the same key less than its outcome's lifetime ago; it differs
  from what was stored only in the mark \<open>Cached\<close>.
\<close>

theorem cache_get_sound:
  assumes "sorted (map fst ops)" and "\<forall>(t, op) \<in> set ops. t \<le> now"
    and "fst (cache_get now key (cache_run ttl ops new_result_cache)) = Some r"
  shows "\<exists>t q. (t, PutOp key q) \<in> set ops \<and> r = q\<lparr>cr_cached := True\<rparr> \<and>
    now < t + lifetime ttl (cr_availability q)"
proof -
  have low: "\<exists>u0 \<le> now. \<forall>(t, op) \<in> set ops. u0 \<le> t"
    using assms(1,2) by (cases ops) (auto simp: case_prod_beta)
  then obtain u0 where u0: "u0 \<le> now" "\<forall>(t, op) \<in> set ops. u0 \<le> t" by blast
  from assms(3) obtain q where q: "cache_look (cache_run ttl ops Map.empty) key now = Some q"
    "r = q\<lparr>cr_cached := True\<rparr>"
    by (auto simp: cache_get_look)
  have "cache_look (cache_run ttl ops Map.empty) key now =
      cache_look (fold (\<lambda>(key, r, t). cache_put ttl t key r) (puts_of ops) Map.empty) key now"
    by (rule cache_look_cong_run [OF _ u0(2) assms(1,2) u0(1)]) simp
  with q(1) obtain t where "(key, q, t) \<in> set (puts_of ops)" "now < t + lifetime ttl (cr_availability q)"
    using results.look_sound [of ttl "puts_of ops" key now q] by auto
  moreover from this(1) have "(t, PutOp key q) \<in> set ops"
    by (induction ops) (auto simp: puts_of_def map_filter_simps split: cache_op.splits option.splits)
  ultimately show ?thesis using q(2) by blast
qed

definition sample_check :: check_result where
  "sample_check =
     \<lparr>cr_domain = ''a.io'', cr_normalized_domain = ''a.io'', cr_tld = ''io'',
      cr_availability = AvailabilityAvailable, cr_status = StatusAvailable, cr_confidence = ConfidenceHigh,
      cr_evidence = [], cr_conflict = False, cr_sources = [], cr_checked_at = 0, cr_cached = False,
      cr_error = None\<rparr>"

theorem cache_get_sound_witness:
  "\<exists>t q. (t, PutOp ''a.io'' q) \<in> set [(5, PutOp ''a.io'' sample_check), (20, PurgeOp)] \<and>
    sample_check\<lparr>cr_cached := True\<rparr> = q\<lparr>cr_cached := True\<rparr> \<and> 30 < t + (60 :: int)"
proof -
  let ?ttl = "\<lparr>ct_available = 60, ct_unavailable = 300, ct_unknown = 15\<rparr>"
  have "fst (cache_get 30 ''a.io'' (cache_run ?ttl [(5, PutOp ''a.io'' sample_check), (20, PurgeOp)] new_result_cache)) =
      Some (sample_check\<lparr>cr_cached := True\<rparr>)"
    by (simp add: cache_put_def cache_get_def cache_purge_def lifetime_def sample_check_def)
  from cache_get_sound [OF _ _ this] show ?thesis by (auto simp: lifetime_def sample_check_def)
qed

text \<open>
  C20: a result stored with a positive lifetime is found until the lifetime has passed, with purges
  and lookups in between, and stores of other keys; from then on it is not found.
\<close>

theorem cache_get_fresh:
  assumes "0 < lifetime ttl (cr_availability r)" and "sorted (map fst ops)"
    and "\<forall>(t, op) \<in> set ops. t0 \<le> t \<and> t \<le> now \<and> (\<forall>k q. op = PutOp k q \<longrightarrow> k \<noteq> key)" and "t0 \<le> now"
  shows "fst (cache_get now key (cache_run ttl ((t0, PutOp key r) # ops) m)) =
    (if now < t0 + lifetime ttl (cr_availability r) then Some (r\<lparr>cr_cached := True\<rparr>) else None)"
proof -
  let ?m = "cache_put ttl t0 key r m"
  have others: "\<forall>(j, w, t) \<in> set (puts_of ops). j \<noteq> key"
    using assms(3) by (induction ops) (auto simp: puts_of_def map_filter_simps split: cache_op.splits option.splits)
  have "cache_look (cache_run ttl ops ?m) key now =
      cache_look (fold (\<lambda>(key, r, t). cache_put ttl t key r) (puts_of ops) ?m) key now"
    using assms(2-4) by (intro cache_look_cong_run [where ?u0.0 = t0]) auto
  also have "\<dots> = (if now < t0 + lifetime ttl (cr_availability r) then Some r else None)"
    using results.look_fresh [of ttl r now t0 "puts_of ops" key m] assms(1) others
      results.look_expired [of ttl r t0 now "puts_of ops" key m] by auto
  finally show ?thesis by (simp add: cache_get_look)
qed

theorem cache_get_fresh_witness:
  "fst (cache_get 30 ''a.io'' (cache_run \<lparr>ct_available = 60, ct_unavailable = 300, ct_unknown = 15\<rparr>
     ((5, PutOp ''a.io'' sample_check) # [(20, PurgeOp), (25, PutOp ''b.io'' sample_check)]) Map.empty)) =
   Some (sample_check\<lparr>cr_cached := True\<rparr>)"
  by (subst cache_get_fresh) (simp_all add: lifetime_def sample_check_def)

end
