(* ===== verification/Engine.thy ===== *)
theory Engine
  imports Provider Resolver Cache
begin

text \<open>
  \<^theory_text>\<open>internal/engine/engine.go\<close>: running the sources of one name concurrently and assembling the
  answer, and around it the cached single check, the batch and the registration details. A source
  is a \<open>provider\<close> over a shared state \<open>'s\<close>; the engine's budget says what its slots and timeouts do
  to that state, and reading the clock is an argument. The goroutines of a check are a step relation whose steps are whole calls of a
  source; between them the shared state may change under other requests.
\<close>

section \<open>The engine\<close>

record 's budget =
  bg_acquire :: "'s \<Rightarrow> bool \<times> 's"
  bg_release :: "'s \<Rightarrow> 's"
  bg_with_timeout :: "duration \<Rightarrow> 's \<Rightarrow> 's"
  bg_cancel :: "'s \<Rightarrow> 's"

record 's engine =
  en_budget :: "'s budget"
  en_primary :: "'s provider list"
  en_corroborating :: "'s provider list"
  en_max_concurrency :: int
  en_timeout :: duration
  en_ttl :: cache_ttl

definition engine_new ::
  "'s budget \<Rightarrow> 's provider list \<Rightarrow> 's provider list \<Rightarrow> int \<Rightarrow> duration \<Rightarrow> cache_ttl \<Rightarrow> 's engine" where
  "engine_new budget primary corroborating slots timeout ttl =
     \<lparr>en_budget = budget, en_primary = primary, en_corroborating = corroborating,
      en_max_concurrency = (if slots \<le> 0 then 8 else slots),
      en_timeout = (if timeout \<le> 0 then 10 * second else timeout), en_ttl = ttl\<rparr>"

text \<open>\<open>run\<close>: one call of a source under the concurrency and timeout budget; an unnamed result gets its
  name. The deferred calls run on every exit, a panic included.\<close>

definition run :: "'s engine \<Rightarrow> 's provider \<Rightarrow> name \<Rightarrow> 's \<Rightarrow> provider_result res \<times> 's" where
  "run en p n s =
     (let bg = en_budget en
      in case bg_acquire bg s of
           (False, s1) \<Rightarrow> (Err ContextErr, s1)
         | (True, s1) \<Rightarrow>
             let (result, s2) = pv_check p n (bg_with_timeout bg (en_timeout en) s1);
                 s3 = bg_release bg (bg_cancel bg s2)
             in (case result of
                   Ok r \<Rightarrow> (Ok (if pr_provider r = [] then r\<lparr>pr_provider := pv_name p\<rparr> else r), s3)
                 | Err e \<Rightarrow> (Err e, s3)
                 | Panic \<Rightarrow> (Panic, s3)))"

section \<open>The goroutines of a check\<close>

record 's check_state =
  ck_results :: "provider_result list"
  ck_pending :: "'s provider list"
  ck_chain :: "'s provider list"
  ck_panic :: bool
  ck_shared :: 's

definition check_start :: "'s engine \<Rightarrow> 's \<Rightarrow> 's check_state" where
  "check_start en s =
     \<lparr>ck_results = [], ck_pending = en_corroborating en, ck_chain = en_primary en,
      ck_panic = False, ck_shared = s\<rparr>"

definition query_failed :: "'s provider \<Rightarrow> go_error \<Rightarrow> provider_result" where
  "query_failed p e =
     zero_result\<lparr>pr_provider := pv_name p, pr_registration := RegistrationUnknown,
                 pr_status := StatusUnknown,
                 pr_evidence := [evidence_tag (pv_name p) ''query_failed''],
                 pr_error := Some e\<rparr>"

text \<open>The goroutine of one corroborating source: its failures are dropped.\<close>

definition corroborate ::
  "'s engine \<Rightarrow> name \<Rightarrow> 's provider \<Rightarrow> 's check_state \<Rightarrow> 's check_state" where
  "corroborate en n p c =
     (let (supported, s1) = pv_supports p n (ck_shared c)
      in if \<not> supported then c\<lparr>ck_shared := s1\<rparr>
         else case run en p n s1 of
             (Ok r, s2) \<Rightarrow> c\<lparr>ck_results := ck_results c @ [r], ck_shared := s2\<rparr>
           | (Err e, s2) \<Rightarrow> c\<lparr>ck_shared := s2\<rparr>
           | (Panic, s2) \<Rightarrow> c\<lparr>ck_panic := True, ck_shared := s2\<rparr>)"

text \<open>
  One round of the primary goroutine, for the source \<open>p\<close> with the sources \<open>ps\<close> after it: a conclusive
  result empties the chain.
\<close>

definition advance ::
  "'s engine \<Rightarrow> name \<Rightarrow> 's provider \<Rightarrow> 's provider list \<Rightarrow> 's check_state \<Rightarrow> 's check_state" where
  "advance en n p ps c =
     (let (supported, s1) = pv_supports p n (ck_shared c)
      in if \<not> supported then c\<lparr>ck_chain := ps, ck_shared := s1\<rparr>
         else case run en p n s1 of
             (Err e, s2) \<Rightarrow>
               c\<lparr>ck_results := ck_results c @ [query_failed p e], ck_chain := ps, ck_shared := s2\<rparr>
           | (Ok r, s2) \<Rightarrow>
               c\<lparr>ck_results := ck_results c @ [r],
                 ck_chain := (if pr_registration r \<noteq> RegistrationUnknown then [] else ps),
                 ck_shared := s2\<rparr>
           | (Panic, s2) \<Rightarrow> c\<lparr>ck_panic := True, ck_chain := ps, ck_shared := s2\<rparr>)"

inductive check_step ::
  "'s engine \<Rightarrow> name \<Rightarrow> ('s \<Rightarrow> 's \<Rightarrow> bool) \<Rightarrow> 's check_state \<Rightarrow> 's check_state \<Rightarrow> bool"
  for en n interfere where
  corroborating: "\<not> ck_panic c \<Longrightarrow> ck_pending c = before @ p # after \<Longrightarrow>
    check_step en n interfere c ((corroborate en n p c)\<lparr>ck_pending := before @ after\<rparr>)"
| primary: "\<not> ck_panic c \<Longrightarrow> ck_chain c = p # ps \<Longrightarrow>
    check_step en n interfere c (advance en n p ps c)"
| other_requests: "interfere (ck_shared c) s \<Longrightarrow> check_step en n interfere c (c\<lparr>ck_shared := s\<rparr>)"

inductive_cases check_stepE: "check_step en n interfere c d"

abbreviation check_steps where
  "check_steps en n interfere \<equiv> (check_step en n interfere)\<^sup>*\<^sup>*"

definition check_done :: "'s check_state \<Rightarrow> bool" where
  "check_done c = (\<not> ck_panic c \<and> ck_pending c = [] \<and> ck_chain c = [])"

text \<open>
  The same, executable, for a given schedule: 0 lets the primary goroutine run, \<open>k + 1\<close> the \<open>k\<close>-th
  pending corroborating one; when the schedule ends, what is left runs in order.
\<close>

definition sched_step :: "'s engine \<Rightarrow> name \<Rightarrow> nat \<Rightarrow> 's check_state \<Rightarrow> 's check_state" where
  "sched_step en n k c =
     (if ck_panic c then c
      else case k of
          0 \<Rightarrow> (case ck_chain c of [] \<Rightarrow> c | p # ps \<Rightarrow> advance en n p ps c)
        | Suc i \<Rightarrow>
            if i < length (ck_pending c)
            then (corroborate en n (ck_pending c ! i) c)
                   \<lparr>ck_pending := take i (ck_pending c) @ drop (Suc i) (ck_pending c)\<rparr>
            else c)"

definition check_results ::
  "'s engine \<Rightarrow> name \<Rightarrow> nat list \<Rightarrow> 's check_state \<Rightarrow> 's check_state" where
  "check_results en n schedule c =
     (let c1 = fold (sched_step en n) schedule c
      in fold (sched_step en n)
           (replicate (length (ck_pending c1)) 1 @ replicate (length (ck_chain c1)) 0) c1)"

section \<open>Assembling and stripping\<close>

definition assemble :: "name \<Rightarrow> provider_result list \<Rightarrow> time \<Rightarrow> check_result" where
  "assemble n results now =
     (let resolved = resolve results
      in \<lparr>cr_domain = n_input n, cr_normalized_domain = n_ascii n, cr_tld = n_tld n,
          cr_availability = rs_availability resolved, cr_status = rs_status resolved,
          cr_confidence = rs_confidence resolved, cr_evidence = rs_evidence resolved,
          cr_conflict = rs_conflict resolved, cr_sources = results, cr_checked_at = now,
          cr_cached = False, cr_error = None\<rparr>)"

text \<open>The lower-case \<open>check\<close> of the engine.\<close>

definition check_name ::
  "('s \<Rightarrow> time) \<Rightarrow> nat list \<Rightarrow> 's engine \<Rightarrow> name \<Rightarrow> 's \<Rightarrow> check_result res \<times> 's" where
  "check_name now schedule en n s =
     (let c = check_results en n schedule (check_start en s)
      in if ck_panic c then (Panic, ck_shared c)
         else (Ok (assemble n (ck_results c) (now (ck_shared c))), ck_shared c))"

definition strip_raw :: "check_result \<Rightarrow> bool \<Rightarrow> check_result" where
  "strip_raw r include_raw =
     (if include_raw then r else r\<lparr>cr_sources := map (\<lambda>q. q\<lparr>pr_raw := NoRaw\<rparr>) (cr_sources r)\<rparr>)"

definition invalid_result :: "string \<Rightarrow> go_error \<Rightarrow> time \<Rightarrow> check_result" where
  "invalid_result input e now =
     \<lparr>cr_domain = input, cr_normalized_domain = [], cr_tld = [],
      cr_availability = AvailabilityUnknown, cr_status = StatusUnknown, cr_confidence = ConfidenceLow,
      cr_evidence = [''input:invalid''], cr_conflict = False, cr_sources = [], cr_checked_at = now,
      cr_cached = False, cr_error = Some e\<rparr>"

section \<open>Check, CheckMany, Info\<close>

text \<open>
  The state of the engine between calls: the cache, the values of the \<^theory_text>\<open>singleflight\<close> executions by
  key, and the shared state of the sources. A call that joins a running execution of the same key
  (\<open>join\<close>) receives its value, which is what the group promises.
\<close>

type_synonym 's engine_state = "entries \<times> (string \<rightharpoonup> check_result) \<times> 's"

definition engine_check ::
  "externals \<Rightarrow> ('s \<Rightarrow> time) \<Rightarrow> 's engine \<Rightarrow> nat list \<Rightarrow> bool \<Rightarrow>
   string \<Rightarrow> bool \<Rightarrow> 's engine_state \<Rightarrow> check_result res \<times> 's engine_state" where
  "engine_check X now en schedule join input include_raw st =
     (let (m, fl, s) = st
      in case parse X input of
        Inl e \<Rightarrow> (Ok (invalid_result input e (now s)), m, fl, s)
      | Inr n \<Rightarrow>
          (case cache_get (now s) (n_ascii n) m of
             (Some cached, m1) \<Rightarrow> (Ok (strip_raw (cached\<lparr>cr_domain := input\<rparr>) include_raw), m1, fl, s)
           | (None, m1) \<Rightarrow>
               (case (if join then fl (n_ascii n) else None) of
                  Some v \<Rightarrow> (Ok (strip_raw (v\<lparr>cr_domain := input\<rparr>) include_raw), m1, fl, s)
                | None \<Rightarrow>
                    (case check_name now schedule en n s of
                       (Ok r, s1) \<Rightarrow>
                         (Ok (strip_raw (r\<lparr>cr_domain := input\<rparr>) include_raw),
                          cache_put (en_ttl en) (now s1) (n_ascii n) r m1, fl(n_ascii n \<mapsto> r), s1)
                     | (Err e, s1) \<Rightarrow> (Err e, m1, fl, s1)
                     | (Panic, s1) \<Rightarrow> (Panic, m1, fl, s1)))))"

text \<open>
  The batch: one call per index in the order the calls take effect, each with its schedule; the
  results are put back at their indices.
\<close>

type_synonym job = "nat \<times> nat list \<times> bool"

fun check_jobs ::
  "externals \<Rightarrow> ('s \<Rightarrow> time) \<Rightarrow> 's engine \<Rightarrow> string list \<Rightarrow> bool \<Rightarrow> job list \<Rightarrow>
   's engine_state \<Rightarrow> (nat \<times> check_result) list res \<times> 's engine_state" where
  "check_jobs X now en inputs include_raw [] st = (Ok [], st)"
| "check_jobs X now en inputs include_raw ((i, schedule, join) # jobs) st =
     (case engine_check X now en schedule join (inputs ! i) include_raw st of
        (Ok r, st1) \<Rightarrow>
          (case check_jobs X now en inputs include_raw jobs st1 of
             (Ok rs, st2) \<Rightarrow> (Ok ((i, r) # rs), st2)
           | (e, st2) \<Rightarrow> (e, st2))
      | (Err e, st1) \<Rightarrow> (Err e, st1)
      | (Panic, st1) \<Rightarrow> (Panic, st1))"

definition check_many ::
  "externals \<Rightarrow> ('s \<Rightarrow> time) \<Rightarrow> 's engine \<Rightarrow> job list \<Rightarrow> string list \<Rightarrow> bool \<Rightarrow>
   's engine_state \<Rightarrow> check_result list res \<times> 's engine_state" where
  "check_many X now en jobs inputs include_raw st =
     (case check_jobs X now en inputs include_raw jobs st of
        (Ok answers, st1) \<Rightarrow> (Ok (map snd (sort_key fst answers)), st1)
      | (Err e, st1) \<Rightarrow> (Err e, st1)
      | (Panic, st1) \<Rightarrow> (Panic, st1))"

fun first_source :: "provider_result list \<Rightarrow> string" where
  "first_source [] = []"
| "first_source (q # qs) = (if pr_source q \<noteq> [] then pr_source q else first_source qs)"

fun first_provider :: "provider_result list \<Rightarrow> string" where
  "first_provider [] = []"
| "first_provider (q # qs) = pr_provider q"

fun first_info :: "provider_result list \<Rightarrow> domain_info option" where
  "first_info [] = None"
| "first_info (q # qs) = (case pr_info q of Some i \<Rightarrow> Some i | None \<Rightarrow> first_info qs)"

definition engine_info ::
  "externals \<Rightarrow> ('s \<Rightarrow> time) \<Rightarrow> 's engine \<Rightarrow> nat list \<Rightarrow> string \<Rightarrow> 's \<Rightarrow>
   domain_info res \<times> 's" where
  "engine_info X now en schedule input s =
     (case parse X input of
        Inl e \<Rightarrow> (Err e, s)
      | Inr n \<Rightarrow>
          (case check_name now schedule en n s of
             (Ok r, s1) \<Rightarrow>
               (case first_info (cr_sources r) of
                  Some info \<Rightarrow> (Ok (info\<lparr>di_domain := input\<rparr>), s1)
                | None \<Rightarrow>
                    if cr_availability r = AvailabilityAvailable
                    then (Ok (zero_info\<lparr>di_domain := input, di_normalized_domain := n_ascii n,
                                di_registered := False, di_source := first_source (cr_sources r),
                                di_provider := first_provider (cr_sources r)\<rparr>), s1)
                    else (Err (Failure ''no registration data available''), s1))
           | (Err e, s1) \<Rightarrow> (Err e, s1)
           | (Panic, s1) \<Rightarrow> (Panic, s1)))"

definition purge_cache :: "('s \<Rightarrow> time) \<Rightarrow> 's engine_state \<Rightarrow> 's engine_state" where
  "purge_cache now st = (let (m, fl, s) = st in (cache_purge (now s) m, fl, s))"

section \<open>What a check collects\<close>

text \<open>
  The invariant of a check over its sources: every source has at most one result, still pending or
  not; corroborating results never say that a name is free; a conclusive result of a primary source
  ends the chain, and all other primary results are unknown.
\<close>

definition from_source :: "'s provider \<Rightarrow> provider_result \<Rightarrow> bool" where
  "from_source p r = (pr_provider r = pv_name p \<and> coherent (pv_name p) r)"

definition sourced :: "'s provider list \<Rightarrow> 's provider list \<Rightarrow> provider_result list \<Rightarrow> bool" where
  "sourced prim corr results =
     (\<forall>r \<in> set results. (\<exists>p \<in> set prim. from_source p r) \<or>
        (\<exists>p \<in> set corr. from_source p r \<and> pr_registration r \<noteq> RegistrationNotRegistered \<and> pr_info r = None))"

definition primary_result :: "'s provider list \<Rightarrow> provider_result list \<Rightarrow> provider_result \<Rightarrow> bool" where
  "primary_result prim results r = (r \<in> set results \<and> pr_provider r \<in> pv_name ` set prim)"

definition first_conclusive :: "'s provider list \<Rightarrow> provider_result list \<Rightarrow> bool" where
  "first_conclusive prim results =
     (\<forall>r q. primary_result prim results r \<and> primary_result prim results q \<and>
       pr_provider r \<noteq> pr_provider q \<longrightarrow>
        pr_registration r = RegistrationUnknown \<or> pr_registration q = RegistrationUnknown)"

definition check_inv :: "'s provider list \<Rightarrow> 's provider list \<Rightarrow> 's check_state \<Rightarrow> bool" where
  "check_inv prim corr c =
     (distinct (map pr_provider (ck_results c) @ map pv_name (ck_pending c) @ map pv_name (ck_chain c)) \<and>
      set (ck_pending c) \<subseteq> set corr \<and> set (ck_chain c) \<subseteq> set prim \<and>
      sourced prim corr (ck_results c) \<and> first_conclusive prim (ck_results c) \<and>
      (ck_chain c \<noteq> [] \<longrightarrow>
         (\<forall>r. primary_result prim (ck_results c) r \<longrightarrow> pr_registration r = RegistrationUnknown)))"

lemma run_Ok:
  assumes "run en p n s = (Ok r, s1)"
  shows "\<exists>s2 q. fst (pv_check p n s2) = Ok q \<and>
    r = (if pr_provider q = [] then q\<lparr>pr_provider := pv_name p\<rparr> else q)"
proof -
  let ?b = "en_budget en"
  obtain s2 where s2: "bg_acquire ?b s = (True, s2)"
    using assms by (auto simp: run_def Let_def split: prod.splits bool.splits)
  let ?s = "bg_with_timeout ?b (en_timeout en) s2"
  obtain q s3 where q: "pv_check p n ?s = (q, s3)" by fastforce
  from assms s2 q show ?thesis by (cases q) (auto simp: run_def Let_def intro!: exI [of _ ?s])
qed

locale source_chain =
  fixes prim corr :: "'s provider list"
  assumes prim_contract: "p \<in> set prim \<Longrightarrow> source_contract (pv_name p) (pv_check p) True"
    and corr_contract: "p \<in> set corr \<Longrightarrow> source_contract (pv_name p) (pv_check p) False"
    and names_distinct: "distinct (map pv_name prim @ map pv_name corr)"
begin

lemma run_named:
  assumes "source_contract (pv_name p) (pv_check p) free" and "run en p n s = (Ok r, s1)"
  shows "from_source p r \<and> (\<not> free \<longrightarrow> pr_registration r \<noteq> RegistrationNotRegistered \<and> pr_info r = None)"
proof -
  from run_Ok [OF assms(2)] obtain s2 q where q: "fst (pv_check p n s2) = Ok q"
    "r = (if pr_provider q = [] then q\<lparr>pr_provider := pv_name p\<rparr> else q)"
    by blast
  with source_contract.named_result [OF assms(1) q(1)] source_contract.check_free [OF assms(1) q(1)]
  show ?thesis by (auto simp: from_source_def)
qed

lemma query_failed_from: "from_source p (query_failed p e)" "pr_registration (query_failed p e) = RegistrationUnknown"
  by (simp_all add: from_source_def query_failed_def coherent_def)

lemma corr_not_prim: "p \<in> set corr \<Longrightarrow> pv_name p \<notin> pv_name ` set prim"
  using names_distinct by auto

lemma check_inv_start:
  "en_primary en = prim \<Longrightarrow> en_corroborating en = corr \<Longrightarrow> check_inv prim corr (check_start en s)"
  using names_distinct
  by (auto simp: check_inv_def check_start_def sourced_def first_conclusive_def primary_result_def)

lemma inv_skip_pending:
  assumes "check_inv prim corr c" and "ck_pending c = before @ p # after"
  shows "check_inv prim corr (c\<lparr>ck_panic := b, ck_shared := s, ck_pending := before @ after\<rparr>)"
  using assms by (auto simp: check_inv_def)

lemma inv_add_pending:
  assumes "check_inv prim corr c" and "ck_pending c = before @ p # after" and "from_source p r"
    and "pr_registration r \<noteq> RegistrationNotRegistered" and "pr_info r = None"
  shows "check_inv prim corr
    (c\<lparr>ck_results := ck_results c @ [r], ck_shared := s, ck_pending := before @ after\<rparr>)"
proof -
  have p: "p \<in> set corr" using assms(1,2) by (auto simp: check_inv_def)
  have name: "pr_provider r = pv_name p" using assms(3) by (simp add: from_source_def)
  have same: "primary_result prim (ck_results c @ [r]) q \<longleftrightarrow> primary_result prim (ck_results c) q" for q
    using corr_not_prim [OF p] name by (auto simp: primary_result_def image_iff)
  show ?thesis
    using assms p name by (auto simp: check_inv_def first_conclusive_def same sourced_def)
qed

lemma inv_skip_chain:
  assumes "check_inv prim corr c" and "ck_chain c = p # ps"
  shows "check_inv prim corr (c\<lparr>ck_panic := b, ck_chain := ps, ck_shared := s\<rparr>)"
  using assms by (auto simp: check_inv_def)

lemma inv_add_chain:
  assumes "check_inv prim corr c" and "ck_chain c = p # ps" and "from_source p r"
    and "chain = (if pr_registration r \<noteq> RegistrationUnknown then [] else ps)"
  shows "check_inv prim corr (c\<lparr>ck_results := ck_results c @ [r], ck_chain := chain, ck_shared := s\<rparr>)"
proof -
  have p: "p \<in> set prim" using assms(1,2) by (auto simp: check_inv_def)
  have unknown: "\<forall>q. primary_result prim (ck_results c) q \<longrightarrow> pr_registration q = RegistrationUnknown"
    using assms(1,2) by (simp add: check_inv_def)
  have split: "primary_result prim (ck_results c @ [r]) q \<longleftrightarrow>
      primary_result prim (ck_results c) q \<or> q = r" for q
    using assms(3) p by (auto simp: primary_result_def from_source_def)
  have "first_conclusive prim (ck_results c @ [r])"
    using unknown by (auto simp: first_conclusive_def split)
  moreover have "sourced prim corr (ck_results c @ [r])"
    using assms(1,3) p by (auto simp: check_inv_def sourced_def)
  ultimately show ?thesis
    using assms p unknown by (auto simp: check_inv_def split from_source_def)
qed

lemma corroborate_inv:
  assumes "check_inv prim corr c" and "ck_pending c = before @ p # after"
  shows "check_inv prim corr ((corroborate en n p c)\<lparr>ck_pending := before @ after\<rparr>)"
proof -
  have p: "p \<in> set corr" using assms by (auto simp: check_inv_def)
  note add = inv_add_pending [OF assms] and skip = inv_skip_pending [OF assms]
  obtain ok s1 where able: "pv_supports p n (ck_shared c) = (ok, s1)" by fastforce
  obtain q s2 where q: "run en p n s1 = (q, s2)" by fastforce
  have named: "from_source p r \<and> pr_registration r \<noteq> RegistrationNotRegistered \<and> pr_info r = None" if "q = Ok r" for r
    using run_named [OF corr_contract [OF p]] q that by blast
  show ?thesis
    using add [where s = s2] named skip [where s = s1 and b = "ck_panic c"]
      skip [where s = s2 and b = "ck_panic c"] skip [where s = s2 and b = True]
    by (cases q) (auto simp: corroborate_def able q)
qed

lemma advance_inv:
  assumes "check_inv prim corr c" and "ck_chain c = p # ps"
  shows "check_inv prim corr (advance en n p ps c)"
proof -
  have p: "p \<in> set prim" using assms by (auto simp: check_inv_def)
  note add = inv_add_chain [OF assms] and skip = inv_skip_chain [OF assms]
  obtain ok s1 where able: "pv_supports p n (ck_shared c) = (ok, s1)" by fastforce
  obtain q s2 where q: "run en p n s1 = (q, s2)" by fastforce
  have named: "from_source p r" if "q = Ok r" for r
    using run_named [OF prim_contract [OF p]] q that by blast
  show ?thesis
    using add [OF named refl, where s = s2] add [OF query_failed_from(1), where s = s2]
      skip [where s = s1 and b = "ck_panic c"] skip [where s = s2 and b = True]
    by (cases q) (auto simp: advance_def able q query_failed_from)
qed

lemma check_step_inv:
  assumes "check_step en n interfere c d" and "check_inv prim corr c"
  shows "check_inv prim corr d"
  using assms
proof (induction rule: check_step.induct)
  case (corroborating c before p after)
  then show ?case by (intro corroborate_inv)
next
  case (primary c p ps)
  then show ?case by (intro advance_inv)
next
  case (other_requests c s)
  then show ?case by (simp add: check_inv_def)
qed

lemma check_steps_inv:
  "check_steps en n interfere c d \<Longrightarrow> check_inv prim corr c \<Longrightarrow> check_inv prim corr d"
  by (induction rule: rtranclp_induct) (auto intro: check_step_inv)

end

text \<open>The executable schedules are runs of the relation, and they end.\<close>

lemma sched_step_steps: "check_steps en n interfere c (sched_step en n k c)"
proof (cases k)
  case 0
  then show ?thesis
    by (auto simp: sched_step_def split: list.split intro!: r_into_rtranclp check_step.primary)
next
  case (Suc i)
  have "check_step en n interfere c
      ((corroborate en n (ck_pending c ! i) c)
         \<lparr>ck_pending := take i (ck_pending c) @ drop (Suc i) (ck_pending c)\<rparr>)"
    if "i < length (ck_pending c)" "\<not> ck_panic c"
    using that by (intro check_step.corroborating) (simp_all add: Cons_nth_drop_Suc)
  with Suc show ?thesis by (auto simp: sched_step_def)
qed

lemma sched_steps: "check_steps en n interfere c (fold (sched_step en n) ks c)"
  by (induction ks arbitrary: c) (auto intro: rtranclp_trans sched_step_steps)

lemma check_results_steps: "check_steps en n interfere c (check_results en n ks c)"
  unfolding check_results_def Let_def by (rule rtranclp_trans [OF sched_steps sched_steps])

lemma corroborate_frame [simp]: "ck_chain (corroborate en n p c) = ck_chain c"
  by (simp add: corroborate_def Let_def split: prod.split res.split)

lemma advance_frame [simp]: "ck_pending (advance en n p ps c) = ck_pending c"
  by (simp add: advance_def Let_def split: prod.split res.split)

lemma advance_shorter: "length (ck_chain (advance en n p ps c)) \<le> length ps"
  by (simp add: advance_def Let_def split: prod.split res.split)

lemma sched_panic: "ck_panic c \<Longrightarrow> fold (sched_step en n) ks c = c"
  by (induction ks) (simp_all add: sched_step_def)

lemma drain_pending:
  "length (ck_pending c) \<le> k \<Longrightarrow> d = fold (sched_step en n) (replicate k 1) c \<Longrightarrow>
   ck_panic d \<or> ck_pending d = [] \<and> ck_chain d = ck_chain c"
proof (induction k arbitrary: c)
  case 0
  then show ?case by simp
next
  case (Suc k)
  let ?c = "sched_step en n 1 c"
  show ?case
  proof (cases "ck_panic c")
    case True
    then show ?thesis using sched_panic [OF True, of en n "replicate (Suc k) 1"] Suc.prems(2) by simp
  next
    case False
    then have "ck_chain ?c = ck_chain c" "length (ck_pending ?c) \<le> k"
      using Suc.prems(1) by (auto simp: sched_step_def)
    with Suc.IH [of ?c] Suc.prems(2) show ?thesis by simp
  qed
qed

lemma drain_chain:
  "length (ck_chain c) \<le> k \<Longrightarrow> d = fold (sched_step en n) (replicate k 0) c \<Longrightarrow>
   ck_panic d \<or> ck_chain d = [] \<and> ck_pending d = ck_pending c"
proof (induction k arbitrary: c)
  case 0
  then show ?case by simp
next
  case (Suc k)
  let ?c = "sched_step en n 0 c"
  show ?case
  proof (cases "ck_panic c")
    case True
    then show ?thesis using sched_panic [OF True, of en n "replicate (Suc k) 0"] Suc.prems(2) by simp
  next
    case False
    have "length (ck_chain (advance en n p ps c)) \<le> k" if "ck_chain c = p # ps" for p ps
      using Suc.prems(1) that advance_shorter [of en n p ps c] by simp
    with False have "ck_pending ?c = ck_pending c" "length (ck_chain ?c) \<le> k"
      by (auto simp: sched_step_def split: list.split)
    with Suc.IH [of ?c] Suc.prems(2) show ?thesis by simp
  qed
qed

lemma check_results_done:
  assumes "\<not> ck_panic (check_results en n ks c)"
  shows "check_done (check_results en n ks c)"
proof -
  define c1 where "c1 = fold (sched_step en n) ks c"
  define c2 where "c2 = fold (sched_step en n) (replicate (length (ck_pending c1)) 1) c1"
  define c3 where "c3 = fold (sched_step en n) (replicate (length (ck_chain c1)) 0) c2"
  have c3: "check_results en n ks c = c3"
    by (simp only: check_results_def Let_def c1_def c2_def c3_def fold_append comp_def)
  show ?thesis
  proof (cases "ck_panic c2")
    case True
    then have "c3 = c2" unfolding c3_def by (rule sched_panic)
    with True assms show ?thesis by (simp add: c3)
  next
    case False
    with drain_pending [OF order.refl c2_def] have c2: "ck_pending c2 = []" "ck_chain c2 = ck_chain c1" by auto
    have "ck_panic c3 \<or> ck_chain c3 = [] \<and> ck_pending c3 = ck_pending c2"
      by (rule drain_chain [OF _ c3_def]) (simp add: c2)
    with c2 assms show ?thesis by (auto simp: check_done_def c3)
  qed
qed

lemma check_name_run:
  assumes "check_name now ks en n s = (Ok r, s1)"
  obtains c where "check_steps en n interfere (check_start en s) c" "check_done c"
    "ck_shared c = s1" "r = assemble n (ck_results c) (now s1)"
proof
  let ?c = "check_results en n ks (check_start en s)"
  show "check_steps en n interfere (check_start en s) ?c" by (rule check_results_steps)
  show "check_done ?c" "ck_shared ?c = s1" "r = assemble n (ck_results ?c) (now s1)"
    using assms check_results_done [of en n ks "check_start en s"]
    by (auto simp: check_name_def Let_def split: if_splits)
qed

lemma check_name_no_error [simp]: "check_name now ks en n s \<noteq> (Err e, s1)"
  by (simp add: check_name_def Let_def)

section \<open>Stripping raw payloads\<close>

definition strip_source :: "bool \<Rightarrow> provider_result \<Rightarrow> provider_result" where
  "strip_source include_raw q = (if include_raw then q else q\<lparr>pr_raw := NoRaw\<rparr>)"

lemma strip_raw_sources: "strip_raw r include_raw = r\<lparr>cr_sources := map (strip_source include_raw) (cr_sources r)\<rparr>"
  by (simp add: strip_raw_def strip_source_def [abs_def])

lemma strip_raw_frame [simp]: "cr_domain (strip_raw r b) = cr_domain r"
  by (simp add: strip_raw_def)

lemma strip_source_simps [simp]:
  "pr_provider (strip_source b q) = pr_provider q" "pr_registration (strip_source b q) = pr_registration q"
  "pr_status (strip_source b q) = pr_status q" "pr_info (strip_source b q) = pr_info q" "pr_evidence (strip_source b q) = pr_evidence q"
  "coherent p (strip_source b q) = coherent p q" "from_source c (strip_source b q) = from_source c q"
  by (simp_all add: strip_source_def coherent_def from_source_def)

lemma last_of_strip: "last_of p (map (strip_source b) rs) = map_option (strip_source b) (last_of p rs)"
  by (simp add: last_of_def rev_map find_map_option)

lemma resolve_strip: "resolve (map (strip_source b) rs) = resolve rs"
  unfolding resolve_def scan_nothing
  by (rule decide_map [where h = "strip_source b"]) (simp_all add: last_of_strip comp_def)

section \<open>What the engine returns\<close>

text \<open>
  An answer is honest when its verdict is what the resolver says of the sources it lists. The
  engine keeps this, and that each source speaks once, of everything it caches, shares or returns.
\<close>

definition honest :: "check_result \<Rightarrow> bool" where
  "honest r =
     (let v = resolve (cr_sources r)
      in cr_availability r = rs_availability v \<and> cr_status r = rs_status v \<and>
         cr_confidence r = rs_confidence v \<and> cr_evidence r = rs_evidence v \<and> cr_conflict r = rs_conflict v)"

definition good_value :: "'s provider list \<Rightarrow> 's provider list \<Rightarrow> string \<Rightarrow> check_result \<Rightarrow> bool" where
  "good_value prim corr key r =
     (cr_normalized_domain r = key \<and> cr_error r = None \<and> honest r \<and> sourced prim corr (cr_sources r) \<and>
      first_conclusive prim (cr_sources r) \<and> distinct (map pr_provider (cr_sources r)))"

definition good_state :: "'s provider list \<Rightarrow> 's provider list \<Rightarrow> 's engine_state \<Rightarrow> bool" where
  "good_state prim corr st =
     (let (m, fl, s) = st
      in (\<forall>key entry. m key = Some entry \<longrightarrow> good_value prim corr key (ce_result entry)) \<and>
         (\<forall>key v. fl key = Some v \<longrightarrow> good_value prim corr key v))"

definition answered :: "externals \<Rightarrow> 's provider list \<Rightarrow> 's provider list \<Rightarrow> string \<Rightarrow> check_result \<Rightarrow> bool" where
  "answered X prim corr input r =
     (cr_domain r = input \<and>
      (case parse X input of
         Inl e \<Rightarrow> cr_availability r = AvailabilityUnknown \<and> cr_error r = Some e \<and> cr_sources r = []
       | Inr n \<Rightarrow> good_value prim corr (n_ascii n) r))"

lemma good_state_empty: "good_state prim corr (Map.empty, Map.empty, s)"
  by (simp add: good_state_def)

lemma good_value_update [simp]:
  "good_value prim corr key (r\<lparr>cr_domain := d\<rparr>) = good_value prim corr key r"
  "good_value prim corr key (r\<lparr>cr_cached := b\<rparr>) = good_value prim corr key r"
  by (simp_all add: good_value_def honest_def)

lemma good_value_strip [simp]: "good_value prim corr key (strip_raw r b) = good_value prim corr key r"
proof -
  have "primary_result prim (map (strip_source b) rs) q \<Longrightarrow>
      \<exists>q2. primary_result prim rs q2 \<and> pr_provider q2 = pr_provider q \<and> pr_registration q2 = pr_registration q" for rs q
    by (auto simp: primary_result_def)
  moreover have "primary_result prim rs q \<Longrightarrow> primary_result prim (map (strip_source b) rs) (strip_source b q)" for rs q
    by (simp add: primary_result_def)
  ultimately have "first_conclusive prim (map (strip_source b) rs) = first_conclusive prim rs" for rs
    unfolding first_conclusive_def by (metis strip_source_simps(1,2))
  then show ?thesis
    by (simp add: good_value_def honest_def strip_raw_sources resolve_strip sourced_def comp_def)
qed

lemma cache_get_good:
  assumes "cache_get t key m = (hit, m1)" and "\<forall>k e. m k = Some e \<longrightarrow> good_value prim corr k (ce_result e)"
  shows "(\<forall>k e. m1 k = Some e \<longrightarrow> good_value prim corr k (ce_result e)) \<and>
    (\<forall>r. hit = Some r \<longrightarrow> good_value prim corr key r)"
  using assms by (auto simp: cache_get_def split: option.splits if_splits)

lemma cache_put_good:
  assumes "\<forall>k e. m k = Some e \<longrightarrow> good_value prim corr k (ce_result e)" and "good_value prim corr key r"
  shows "\<forall>k e. cache_put ttl t key r m k = Some e \<longrightarrow> good_value prim corr k (ce_result e)"
  using assms by (simp add: cache_put_def Let_def)

context source_chain
begin

lemma check_done_good:
  assumes "check_inv prim corr c" and "check_done c"
  shows "good_value prim corr (n_ascii n) (assemble n (ck_results c) t)"
  using assms by (auto simp: good_value_def check_inv_def check_done_def assemble_def honest_def Let_def)

lemma check_name_good:
  assumes "en_primary en = prim" "en_corroborating en = corr"
    and "check_name now ks en n s = (Ok r, s1)"
  shows "good_value prim corr (n_ascii n) r"
  using assms(3)
proof (rule check_name_run [where interfere = "\<lambda>_ _. False"])
  fix c
  assume "check_steps en n (\<lambda>_ _. False) (check_start en s) c" "check_done c"
    "ck_shared c = s1" "r = assemble n (ck_results c) (now s1)"
  with check_steps_inv [OF _ check_inv_start [OF assms(1,2)]] check_done_good show ?thesis by blast
qed

lemma engine_check_good:
  assumes "en_primary en = prim" "en_corroborating en = corr" and "good_state prim corr st"
    and "engine_check X now en ks join input b st = (Ok r, st1)"
  shows "answered X prim corr input r \<and> good_state prim corr st1"
proof (cases "parse X input")
  case (Inl e)
  with assms(3,4) show ?thesis
    by (auto simp: engine_check_def answered_def invalid_result_def split: prod.splits)
next
  case (Inr n)
  obtain m fl s where st: "st = (m, fl, s)" by (cases st)
  obtain hit m1 where get: "cache_get (now s) (n_ascii n) m = (hit, m1)" by fastforce
  have good: "\<forall>k e. m k = Some e \<longrightarrow> good_value prim corr k (ce_result e)"
    "\<forall>k v. fl k = Some v \<longrightarrow> good_value prim corr k v"
    using assms(3) by (simp_all add: good_state_def st)
  note hit = cache_get_good [OF get good(1)]
  obtain q s1 where q: "check_name now ks en n s = (q, s1)" by fastforce
  note run = check_name_good [OF assms(1,2), of now ks n s _ s1]
  have put: "good_value prim corr (n_ascii n) v \<Longrightarrow>
      \<forall>k e. cache_put (en_ttl en) (now s1) (n_ascii n) v m1 k = Some e \<longrightarrow> good_value prim corr k (ce_result e)" for v
    using cache_put_good hit by blast
  show ?thesis
  proof (cases hit)
    case (Some c)
    with assms(4) hit good(2) show ?thesis
      by (auto simp: engine_check_def Inr st get answered_def good_state_def)
  next
    case None
    show ?thesis
    proof (cases "if join then fl (n_ascii n) else None")
      case (Some v)
      with None assms(4) hit good(2) show ?thesis
        by (auto simp: engine_check_def Inr st get answered_def good_state_def split: if_splits)
    next
      case no_join: None
      with None assms(4) q have "\<exists>v. q = Ok v"
        by (cases q) (simp_all add: engine_check_def Inr st get)
      then obtain v where v: "q = Ok v" by blast
      with q run have vg: "good_value prim corr (n_ascii n) v" by blast
      from None no_join q v assms(4) have r: "r = strip_raw (v\<lparr>cr_domain := input\<rparr>) b"
        "st1 = (cache_put (en_ttl en) (now s1) (n_ascii n) v m1, fl(n_ascii n \<mapsto> v), s1)"
        by (simp_all add: engine_check_def Inr st get)
      then show ?thesis
        using vg put [OF vg] good(2) by (simp add: r answered_def Inr good_state_def)
    qed
  qed
qed

end

lemma engine_check_no_error [simp]: "engine_check X now en ks join input b st \<noteq> (Err e, st1)"
  by (simp add: engine_check_def Let_def split: prod.split sum.split option.split res.split)

section \<open>Batches\<close>

lemma check_jobs_no_error [simp]: "check_jobs X now en inputs b jobs st \<noteq> (Err e, st1)"
  by (induction jobs arbitrary: st st1) (auto split: prod.splits res.splits)

lemma check_many_no_error [simp]: "check_many X now en jobs inputs b st \<noteq> (Err e, st1)"
  by (simp add: check_many_def split: prod.split res.split)

context source_chain
begin

lemma check_jobs_good:
  assumes "en_primary en = prim" "en_corroborating en = corr" and "good_state prim corr st"
    and "check_jobs X now en inputs b jobs st = (Ok answers, st1)"
  shows "map fst answers = map fst jobs \<and> good_state prim corr st1 \<and>
    (\<forall>(i, r) \<in> set answers. answered X prim corr (inputs ! i) r)"
  using assms(3,4)
proof (induction jobs arbitrary: st answers)
  case (Cons job jobs)
  obtain i ks join where job: "job = (i, ks, join)" by (cases job)
  from Cons.prems(2) obtain r st2 rs where r: "engine_check X now en ks join (inputs ! i) b st = (Ok r, st2)"
    and rs: "check_jobs X now en inputs b jobs st2 = (Ok rs, st1)" "answers = (i, r) # rs"
    by (auto simp: job split: prod.splits res.splits)
  from engine_check_good [OF assms(1,2) Cons.prems(1) r] Cons.IH [of st2 rs] rs
  show ?case by (auto simp: job)
qed simp

text \<open>Every input has its own answer at its own index, in whatever order the calls took effect.\<close>

lemma check_many_good:
  assumes "en_primary en = prim" "en_corroborating en = corr" and "good_state prim corr st"
    and "check_many X now en jobs inputs b st = (Ok results, st1)"
    and "mset (map fst jobs) = mset [0..<length inputs]"
  shows "length results = length inputs \<and> good_state prim corr st1 \<and>
    (\<forall>i < length inputs. answered X prim corr (inputs ! i) (results ! i))"
proof -
  from assms(4) obtain answers where answers: "check_jobs X now en inputs b jobs st = (Ok answers, st1)"
    and results: "results = map snd (sort_key fst answers)"
    by (auto simp: check_many_def split: prod.splits res.splits)
  note good = check_jobs_good [OF assms(1-3) answers]
  let ?a = "sort_key fst answers"
  have "mset (map fst answers) = mset [0..<length inputs]" using good assms(5) by simp
  then have "mset (map fst ?a) = mset [0..<length inputs]" by (simp add: mset_map)
  then have keys: "map fst ?a = [0..<length inputs]"
    by (metis properties_for_sort sorted_sort_key sort_upt)
  then have len: "length ?a = length inputs" by (metis length_map length_upt minus_nat.diff_0)
  have "answered X prim corr (inputs ! i) (results ! i)" if i: "i < length inputs" for i
  proof -
    have "fst (?a ! i) = i" using keys i len by (metis add_0 nth_map nth_upt diff_zero)
    moreover have "?a ! i \<in> set answers" using nth_mem [of i ?a] i len by simp
    ultimately show ?thesis using good i len by (auto simp: results split_beta)
  qed
  with good len show ?thesis by (simp add: results)
qed

end

section \<open>Interleavings\<close>

text \<open>
  When the answer of each source does not depend on the shared state, every complete run collects
  the same results, up to their order: those of the corroborating sources and those of the chain.
\<close>

definition fixed_answers ::
  "'s engine \<Rightarrow> name \<Rightarrow> ('s provider \<Rightarrow> bool) \<Rightarrow> ('s provider \<Rightarrow> provider_result res) \<Rightarrow>
   's provider list \<Rightarrow> bool" where
  "fixed_answers en n able ans ps =
     (\<forall>p \<in> set ps. \<forall>s. fst (pv_supports p n s) = able p \<and> fst (run en p n s) = ans p)"

definition corr_results ::
  "('s provider \<Rightarrow> bool) \<Rightarrow> ('s provider \<Rightarrow> provider_result res) \<Rightarrow> 's provider list \<Rightarrow> provider_result list" where
  "corr_results able ans ps =
     concat (map (\<lambda>p. if able p then (case ans p of Ok r \<Rightarrow> [r] | _ \<Rightarrow> []) else []) ps)"

fun chain_results ::
  "('s provider \<Rightarrow> bool) \<Rightarrow> ('s provider \<Rightarrow> provider_result res) \<Rightarrow> 's provider list \<Rightarrow> provider_result list" where
  "chain_results able ans [] = []"
| "chain_results able ans (p # ps) =
     (if \<not> able p then chain_results able ans ps
      else case ans p of
          Ok r \<Rightarrow> r # (if pr_registration r = RegistrationUnknown then chain_results able ans ps else [])
        | Err e \<Rightarrow> query_failed p e # chain_results able ans ps
        | Panic \<Rightarrow> [])"

definition expected ::
  "('s provider \<Rightarrow> bool) \<Rightarrow> ('s provider \<Rightarrow> provider_result res) \<Rightarrow> 's check_state \<Rightarrow> provider_result multiset" where
  "expected able ans c =
     mset (ck_results c) + mset (corr_results able ans (ck_pending c)) + mset (chain_results able ans (ck_chain c))"

lemma corroborate_expected:
  assumes "fixed_answers en n able ans ps" and "p \<in> set ps" and "ck_pending c = before @ p # after"
  defines "d \<equiv> (corroborate en n p c)\<lparr>ck_pending := before @ after\<rparr>"
  shows "ck_panic d \<or> expected able ans d = expected able ans c"
proof -
  obtain ok s1 where ok: "pv_supports p n (ck_shared c) = (ok, s1)" by fastforce
  obtain q s2 where q: "run en p n s1 = (q, s2)" by fastforce
  from assms(1,2) ok q have "able p = ok" "ans p = q" unfolding fixed_answers_def by (metis fst_conv)+
  then show ?thesis
    unfolding d_def using assms(3) ok q
    by (cases q) (auto simp: corroborate_def expected_def corr_results_def)
qed

lemma advance_expected:
  assumes "fixed_answers en n able ans ps" and "p \<in> set ps" and "ck_chain c = p # qs"
  shows "ck_panic (advance en n p qs c) \<or>
    expected able ans (advance en n p qs c) = expected able ans c"
proof -
  obtain ok s1 where ok: "pv_supports p n (ck_shared c) = (ok, s1)" by fastforce
  obtain q s2 where q: "run en p n s1 = (q, s2)" by fastforce
  from assms(1,2) ok q have "able p = ok" "ans p = q" unfolding fixed_answers_def by (metis fst_conv)+
  then show ?thesis
    using assms(3) ok q by (cases q) (auto simp: advance_def expected_def)
qed

lemma check_step_expected:
  assumes "check_step en n interfere c d" and "fixed_answers en n able ans ps"
    and "set (ck_pending c) \<union> set (ck_chain c) \<subseteq> set ps"
  shows "set (ck_pending d) \<union> set (ck_chain d) \<subseteq> set ps \<and>
    (ck_panic d \<or> \<not> ck_panic c \<and> expected able ans d = expected able ans c)"
  using assms
proof (induction rule: check_step.induct)
  case (corroborating c before p after)
  with corroborate_expected [OF corroborating(3), of p c before after] show ?case by auto
next
  case (primary c p qs)
  have "set (ck_chain (advance en n p qs c)) \<subseteq> set qs"
    by (simp add: advance_def Let_def split: prod.split res.split)
  with primary advance_expected [OF primary(3), of p c qs] show ?case by auto
next
  case (other_requests c s)
  then show ?case by (auto simp: expected_def)
qed

lemma check_steps_expected:
  assumes "check_steps en n interfere c d" and "fixed_answers en n able ans ps"
    and "set (ck_pending c) \<union> set (ck_chain c) \<subseteq> set ps" and "\<not> ck_panic d"
  shows "expected able ans d = expected able ans c"
proof -
  have "set (ck_pending d) \<union> set (ck_chain d) \<subseteq> set ps \<and>
      (ck_panic d \<or> expected able ans d = expected able ans c)"
    using assms(1,3)
  proof (induction rule: rtranclp_induct)
    case (step d e)
    with check_step_expected [OF step(2) assms(2)] show ?case by auto
  qed simp
  with assms(4) show ?thesis by simp
qed

lemma check_run_results:
  assumes "check_steps en n interfere (check_start en s) c" and "check_done c"
    and "fixed_answers en n able ans (en_primary en @ en_corroborating en)"
  shows "mset (ck_results c) =
    mset (corr_results able ans (en_corroborating en) @ chain_results able ans (en_primary en))"
  using check_steps_expected [OF assms(1,3)] assms(2)
  by (simp add: expected_def check_start_def check_done_def corr_results_def)

section \<open>Panics\<close>

definition never_panics :: "'s engine \<Rightarrow> bool" where
  "never_panics en =
     (\<forall>p \<in> set (en_primary en @ en_corroborating en). \<forall>n s. fst (run en p n s) \<noteq> Panic)"

lemma corroborate_panic:
  "fst (run en p n (snd (pv_supports p n (ck_shared c)))) \<noteq> Panic \<Longrightarrow>
   ck_panic (corroborate en n p c) = ck_panic c"
  by (auto simp: corroborate_def split: prod.split res.split)

lemma advance_panic:
  "fst (run en p n (snd (pv_supports p n (ck_shared c)))) \<noteq> Panic \<Longrightarrow>
   ck_panic (advance en n p ps c) = ck_panic c \<and> set (ck_chain (advance en n p ps c)) \<subseteq> set ps"
  by (auto simp: advance_def split: prod.split res.split)

lemma check_steps_no_panic:
  assumes "check_steps en n interfere c d" and "\<forall>p \<in> set ps. \<forall>s. fst (run en p n s) \<noteq> Panic"
    and "set (ck_pending c) \<union> set (ck_chain c) \<subseteq> set ps" and "\<not> ck_panic c"
  shows "\<not> ck_panic d \<and> set (ck_pending d) \<union> set (ck_chain d) \<subseteq> set ps"
  using assms(1)
proof (induction rule: rtranclp_induct)
  case base
  with assms show ?case by simp
next
  case (step d e)
  have chain: "set (ck_chain (advance en n p qs d)) \<subseteq> set qs" for p qs
    by (simp add: advance_def Let_def split: prod.split res.split)
  from step(2,3) assms(2) chain show ?case
    by (cases rule: check_step.cases) (auto simp: corroborate_panic advance_panic dest!: subsetD)
qed

lemma check_name_returns:
  assumes "never_panics en"
  shows "\<exists>r s1. check_name now ks en n s = (Ok r, s1)"
proof -
  let ?c = "check_results en n ks (check_start en s)"
  have "check_steps en n (\<lambda>_ _. False) (check_start en s) ?c" by (rule check_results_steps)
  from check_steps_no_panic [OF this, of "en_primary en @ en_corroborating en"] assms
  have "\<not> ck_panic ?c" by (simp add: never_panics_def check_start_def)
  then show ?thesis by (simp add: check_name_def Let_def)
qed

lemma engine_check_returns:
  assumes "never_panics en"
  shows "\<exists>r st1. engine_check X now en ks join input b st = (Ok r, st1)"
proof -
  have name: "check_name now ks en n s \<noteq> (Panic, s1)" for n s s1
    using check_name_returns [OF assms, of now ks n s] by auto
  obtain q st1 where q: "engine_check X now en ks join input b st = (q, st1)" by (metis surj_pair)
  then have "q \<noteq> Panic"
    using name by (auto simp: engine_check_def split: prod.splits sum.splits option.splits res.splits)
  with q show ?thesis by (cases q; cases st1) simp_all
qed

lemma check_many_returns:
  assumes "never_panics en"
  shows "\<exists>rs st1. check_many X now en jobs inputs b st = (Ok rs, st1)"
proof -
  have "\<exists>rs st1. check_jobs X now en inputs b jobs st = (Ok rs, st1)"
  proof (induction jobs arbitrary: st)
    case (Cons job jobs)
    obtain i ks join where job: "job = (i, ks, join)" by (cases job)
    obtain r st2 where r: "engine_check X now en ks join (inputs ! i) b st = (Ok r, st2)"
      using engine_check_returns [OF assms, of X now ks join "inputs ! i" b st] by (elim exE)
    from Cons.IH [of st2] obtain rs st1 where "check_jobs X now en inputs b jobs st2 = (Ok rs, st1)"
      by (elim exE)
    with r show ?case by (intro exI [of _ "(i, r) # rs"] exI [of _ st1]) (simp add: job)
  next
    case Nil
    then show ?case by (intro exI) (rule check_jobs.simps(1))
  qed
  then obtain rs st1 where "check_jobs X now en inputs b jobs st = (Ok rs, st1)" by (elim exE)
  then show ?thesis
    by (intro exI [of _ "map snd (sort_key fst rs)"] exI [of _ st1]) (simp add: check_many_def)
qed

section \<open>Properties\<close>

text \<open>
  C7: when each source gives a fixed answer, every complete interleaving of the goroutines of a
  check, with other requests in between, collects the same results and reaches the same verdict.
\<close>

theorem check_interleaving:
  assumes "source_chain (en_primary en) (en_corroborating en)"
    and "fixed_answers en n able ans (en_primary en @ en_corroborating en)"
    and "check_steps en n interfere (check_start en s) c" and "check_done c"
    and "check_steps en n interfere2 (check_start en s2) d" and "check_done d"
  shows "mset (ck_results c) = mset (ck_results d) \<and> resolve (ck_results c) = resolve (ck_results d)"
proof -
  have eq: "mset (ck_results c) = mset (ck_results d)"
    using check_run_results [OF assms(3,4,2)] check_run_results [OF assms(5,6,2)] by simp
  have "check_inv (en_primary en) (en_corroborating en) c"
    using source_chain.check_steps_inv [OF assms(1,3)] source_chain.check_inv_start [OF assms(1) refl refl] by blast
  then have "distinct (map pr_provider (ck_results c))" by (simp add: check_inv_def)
  with eq show ?thesis using resolve_mset_cong by blast
qed


text \<open>Two sources with a fixed answer each.\<close>

definition constant_source :: "string \<Rightarrow> registration_status \<Rightarrow> status \<Rightarrow> 's provider" where
  "constant_source p st d =
     \<lparr>pv_name = p, pv_supports = (\<lambda>n s. (True, s)),
      pv_check = (\<lambda>n s. (Ok (zero_result\<lparr>pr_registration := st, pr_status := d\<rparr>), s))\<rparr>"

definition constant_engine :: "unit engine" where
  "constant_engine =
     engine_new \<lparr>bg_acquire = (\<lambda>s. (True, s)), bg_release = id, bg_with_timeout = (\<lambda>d s. s), bg_cancel = id\<rparr>
       [constant_source rdap_name RegistrationNotRegistered StatusAvailable]
       [constant_source dns_name RegistrationRegistered StatusRegistered] 0 0
       \<lparr>ct_available = 0, ct_unavailable = 0, ct_unknown = 0\<rparr>"

theorem check_interleaving_witness:
  "resolve (ck_results (check_results constant_engine sample_name [0] (check_start constant_engine ()))) =
   resolve (ck_results (check_results constant_engine sample_name [1] (check_start constant_engine ())))"
proof -
  let ?go = "\<lambda>ks. check_results constant_engine sample_name ks (check_start constant_engine ())"
  have chain: "source_chain (en_primary constant_engine) (en_corroborating constant_engine)"
    by (rule source_chain.intro)
       (auto simp: constant_engine_def engine_new_def constant_source_def source_contract_def coherent_def zero_result_def)
  have fixed: "fixed_answers constant_engine sample_name (\<lambda>p. True) (\<lambda>p. fst (run constant_engine p sample_name ()))
      (en_primary constant_engine @ en_corroborating constant_engine)"
    by (simp add: fixed_answers_def constant_engine_def engine_new_def constant_source_def)
  have fin: "check_done (?go ks)" if "\<not> ck_panic (?go ks)" for ks
    using that by (rule check_results_done)
  have calm: "\<not> ck_panic (?go [0])" "\<not> ck_panic (?go [1])"
    by (simp_all add: check_results_def Let_def check_start_def sched_step_def constant_engine_def engine_new_def
        constant_source_def advance_def corroborate_def run_def zero_result_def)
  show ?thesis
    using check_interleaving [OF chain fixed check_results_steps fin [OF calm(1)] check_results_steps fin [OF calm(2)]]
    by blast
qed

end
