(* ===== verification/Progress.thy ===== *)
theory Progress
  imports Prelude
begin

text \<open>
  The contract of a group of goroutines that cannot block each other for ever: as long as their
  invariant holds, every step leaves less to do, and while not all have ended one of them has a step.
  Then they end from every state, whatever was scheduled before. The provider calls on the slots, the
  lookups of the registry and the calls of \<^theory_text>\<open>Check\<close> keep it.
\<close>

locale terminating_steps =
  fixes step :: "'s \<Rightarrow> 's \<Rightarrow> bool" and inv :: "'s \<Rightarrow> bool" and left :: "'s \<Rightarrow> nat" and ended :: "'s \<Rightarrow> bool"
  assumes step_inv: "step s t \<Longrightarrow> inv s \<Longrightarrow> inv t"
    and step_left: "step s t \<Longrightarrow> inv s \<Longrightarrow> left t < left s"
    and progress: "inv s \<Longrightarrow> \<not> ended s \<Longrightarrow> \<exists>t. step s t"
begin

lemma steps_inv: "step\<^sup>*\<^sup>* s t \<Longrightarrow> inv s \<Longrightarrow> inv t"
  by (induction rule: rtranclp_induct) (auto intro: step_inv)

lemma steps_left: "(step ^^ k) s t \<Longrightarrow> inv s \<Longrightarrow> k + left t \<le> left s"
proof (induction k arbitrary: t)
  case (Suc k)
  then obtain u where u: "(step ^^ k) s u" "step u t" by auto
  then have "inv u" using steps_inv relpowp_imp_rtranclp Suc.prems(2) by metis
  with Suc.IH [OF u(1) Suc.prems(2)] step_left [OF u(2)] show ?case by simp
qed simp

lemma completes: "inv s \<Longrightarrow> \<exists>t. step\<^sup>*\<^sup>* s t \<and> inv t \<and> ended t"
proof (induction "left s" arbitrary: s rule: less_induct)
  case less
  show ?case
  proof (cases "ended s")
    case False
    then obtain t where t: "step s t" using progress less.prems by blast
    from less.hyps [OF step_left [OF t less.prems] step_inv [OF t less.prems]] t show ?thesis
      by (meson converse_rtranclp_into_rtranclp)
  qed (use less.prems in auto)
qed

lemma stuck_ended: "inv s \<Longrightarrow> \<nexists>t. step s t \<Longrightarrow> ended s"
  using progress by blast

end

text \<open>Counting the entries of a list that is updated at one place, and summing over it.\<close>

lemma length_filter_update:
  "i < length xs \<Longrightarrow> length (filter P (xs[i := y])) + (if P (xs ! i) then 1 else 0) =
     length (filter P xs) + (if P y then 1 else 0)"
proof (induction xs arbitrary: i)
  case (Cons a xs)
  show ?case
  proof (cases i)
    case (Suc j)
    with Cons.prems Cons.IH [of j] show ?thesis by (cases "P a") simp_all
  qed simp
qed simp

lemma sum_list_less:
  fixes f :: "'a \<Rightarrow> nat"
  assumes "length ys = length xs" and "\<forall>j < length xs. f (ys ! j) \<le> f (xs ! j)"
    and "i < length xs" and "f (ys ! i) < f (xs ! i)"
  shows "sum_list (map f ys) < sum_list (map f xs)"
proof -
  have "(\<Sum>j < length xs. f (ys ! j)) < (\<Sum>j < length xs. f (xs ! j))"
    using assms by (intro sum_strict_mono_ex1) auto
  then show ?thesis using assms(1) by (simp add: sum_list_sum_nth atLeast0LessThan)
qed

end
