(* ===== verification/Flights.thy ===== *)
theory Flights
  imports Engine Progress
begin

text \<open>
  Calls of \<^theory_text>\<open>Check\<close> (\<^theory_text>\<open>internal/engine/engine.go\<close>) that run at the same time, as \<^theory_text>\<open>CheckMany\<close> and the
  tool calls of several clients start them: one goroutine per request, interleaved at the cache, at the
  \<^theory_text>\<open>singleflight\<close> group and inside the executions that the group runs. \<open>Engine\<close> treats a call as one
  step; here the call is cut at every access to state that it shares with the others.
\<close>

section \<open>The goroutines\<close>

record request =
  rq_input :: string
  rq_raw :: bool

text \<open>
  The function that \<^theory_text>\<open>group.Do\<close> runs for a key: the sources are asked, the answer is there, the
  answer is in the cache.
\<close>

datatype 's execution =
    Running "'s check_state"
  | Computed check_result
  | Stored check_result

text \<open>
  A call before the cache lookup, between the lookup and \<^theory_text>\<open>group.Do\<close>, inside \<^theory_text>\<open>group.Do\<close> as the one
  that executes or as one that waits, and after it returned.
\<close>

datatype 's phase =
    Arrived
  | Missed name
  | Leading name "'s execution"
  | Joined name
  | Answered check_result

record 's flights =
  fl_cache :: entries
  fl_calls :: "'s phase list"
  fl_shared :: 's

definition flights_start :: "request list \<Rightarrow> entries \<Rightarrow> 's \<Rightarrow> 's flights" where
  "flights_start reqs m s = \<lparr>fl_cache = m, fl_calls = map (\<lambda>_. Arrived) reqs, fl_shared = s\<rparr>"

fun leads :: "string \<Rightarrow> 's phase \<Rightarrow> bool" where
  "leads key (Leading n e) = (n_ascii n = key)"
| "leads key _ = False"

fun in_flight :: "string \<Rightarrow> 's phase \<Rightarrow> bool" where
  "in_flight key (Leading n e) = (n_ascii n = key)"
| "in_flight key (Joined n) = (n_ascii n = key)"
| "in_flight key _ = False"

definition answer_request :: "request \<Rightarrow> check_result \<Rightarrow> check_result" where
  "answer_request rq r = strip_raw (r\<lparr>cr_domain := rq_input rq\<rparr>) (rq_raw rq)"

text \<open>
  \<^theory_text>\<open>group.Do\<close> returns: the key is free again, and the value goes to the call that executed and to
  all that joined it.
\<close>

definition land :: "request list \<Rightarrow> string \<Rightarrow> check_result \<Rightarrow> 's phase list \<Rightarrow> 's phase list" where
  "land reqs key r calls =
     map2 (\<lambda>rq ph. if in_flight key ph then Answered (answer_request rq r) else ph) reqs calls"

definition call_is :: "'s flights \<Rightarrow> nat \<Rightarrow> 's phase \<Rightarrow> bool" where
  "call_is b i ph = (i < length (fl_calls b) \<and> fl_calls b ! i = ph)"

definition set_call :: "nat \<Rightarrow> 's phase \<Rightarrow> 's flights \<Rightarrow> 's flights" where
  "set_call i ph b = b\<lparr>fl_calls := (fl_calls b)[i := ph]\<rparr>"

text \<open>
  One step of one goroutine. The group is not code of the repository: \<open>lead\<close>, \<open>join\<close> and \<open>return\<close> are what its
  documentation says of \<^theory_text>\<open>Do\<close>, that a call runs the function unless one for the key is running, that
  it waits for that one otherwise, and that both get its value. That no two calls execute one name at
  a time is therefore the contract of the group and not a result about this program. An execution works
  under the context of the call that started it: \<open>focus i\<close> makes that of the \<open>i\<close>-th call the one that the
  shared state obeys.
\<close>

inductive call_step ::
  "externals \<Rightarrow> ('s \<Rightarrow> time) \<Rightarrow> 's engine \<Rightarrow> (nat \<Rightarrow> 's \<Rightarrow> 's) \<Rightarrow> request list \<Rightarrow> 's flights \<Rightarrow> 's flights \<Rightarrow> bool"
  for X now en focus reqs where
  reject: "call_is b i Arrived \<Longrightarrow> parse X (rq_input (reqs ! i)) = Inl e \<Longrightarrow>
    call_step X now en focus reqs b (set_call i (Answered (invalid_result (rq_input (reqs ! i)) e (now (fl_shared b)))) b)"
| hit: "call_is b i Arrived \<Longrightarrow> parse X (rq_input (reqs ! i)) = Inr n \<Longrightarrow>
    cache_get (now (fl_shared b)) (n_ascii n) (fl_cache b) = (Some r, m) \<Longrightarrow>
    call_step X now en focus reqs b (set_call i (Answered (answer_request (reqs ! i) r)) (b\<lparr>fl_cache := m\<rparr>))"
| miss: "call_is b i Arrived \<Longrightarrow> parse X (rq_input (reqs ! i)) = Inr n \<Longrightarrow>
    cache_get (now (fl_shared b)) (n_ascii n) (fl_cache b) = (None, m) \<Longrightarrow>
    call_step X now en focus reqs b (set_call i (Missed n) (b\<lparr>fl_cache := m\<rparr>))"
| lead: "call_is b i (Missed n) \<Longrightarrow> \<not> list_ex (leads (n_ascii n)) (fl_calls b) \<Longrightarrow>
    call_step X now en focus reqs b (set_call i (Leading n (Running (check_start en (fl_shared b)))) b)"
| join: "call_is b i (Missed n) \<Longrightarrow> list_ex (leads (n_ascii n)) (fl_calls b) \<Longrightarrow>
    call_step X now en focus reqs b (set_call i (Joined n) b)"
| work: "call_is b i (Leading n (Running c)) \<Longrightarrow>
    check_step en n (\<lambda>_ _. False) (c\<lparr>ck_shared := focus i (fl_shared b)\<rparr>) d \<Longrightarrow>
    call_step X now en focus reqs b (set_call i (Leading n (Running d)) (b\<lparr>fl_shared := ck_shared d\<rparr>))"
| compute: "call_is b i (Leading n (Running c)) \<Longrightarrow> check_done c \<Longrightarrow>
    call_step X now en focus reqs b
      (set_call i (Leading n (Computed (assemble n (ck_results c) (now (fl_shared b))))) b)"
| store: "call_is b i (Leading n (Computed r)) \<Longrightarrow>
    call_step X now en focus reqs b (set_call i (Leading n (Stored r))
      (b\<lparr>fl_cache := cache_put (en_ttl en) (now (fl_shared b)) (n_ascii n) r (fl_cache b)\<rparr>))"
| return: "call_is b i (Leading n (Stored r)) \<Longrightarrow>
    call_step X now en focus reqs b (b\<lparr>fl_calls := land reqs (n_ascii n) r (fl_calls b)\<rparr>)"

text \<open>
  What happens around the calls: the shared state of the sources changes (time passes, a lookup of
  registration details asks a source), and the cache is purged.
\<close>

inductive outside_step :: "('s \<Rightarrow> time) \<Rightarrow> 's flights \<Rightarrow> 's flights \<Rightarrow> bool" for now where
  shared: "outside_step now b (b\<lparr>fl_shared := s\<rparr>)"
| purge: "outside_step now b (b\<lparr>fl_cache := cache_purge (now (fl_shared b)) (fl_cache b)\<rparr>)"

text \<open>A run with the number of steps that the calls themselves made.\<close>

inductive calls_run ::
  "externals \<Rightarrow> ('s \<Rightarrow> time) \<Rightarrow> 's engine \<Rightarrow> (nat \<Rightarrow> 's \<Rightarrow> 's) \<Rightarrow> request list \<Rightarrow> 's flights \<Rightarrow> nat \<Rightarrow> 's flights \<Rightarrow> bool"
  for X now en focus reqs where
  refl: "calls_run X now en focus reqs b 0 b"
| own: "calls_run X now en focus reqs b k c \<Longrightarrow> call_step X now en focus reqs c d \<Longrightarrow> calls_run X now en focus reqs b (Suc k) d"
| outside: "calls_run X now en focus reqs b k c \<Longrightarrow> outside_step now c d \<Longrightarrow> calls_run X now en focus reqs b k d"

definition all_answered :: "'s flights \<Rightarrow> bool" where
  "all_answered b = list_all (\<lambda>ph. case ph of Answered r \<Rightarrow> True | _ \<Rightarrow> False) (fl_calls b)"

inductive_cases outside_stepE: "outside_step now b c"

section \<open>One execution per key\<close>

definition one_leader :: "'s phase list \<Rightarrow> bool" where
  "one_leader calls =
     ((\<forall>key i j. i < length calls \<and> j < length calls \<and> leads key (calls ! i) \<and> leads key (calls ! j) \<longrightarrow> i = j) \<and>
      (\<forall>n. Joined n \<in> set calls \<longrightarrow> (\<exists>ph \<in> set calls. leads (n_ascii n) ph)))"

lemma leads_in_flight: "leads key ph \<Longrightarrow> in_flight key ph"
  by (cases ph) simp_all

lemma leads_leading: "leads key ph \<Longrightarrow> \<exists>n e. ph = Leading n e"
  by (cases ph) simp_all

lemma leads_some_key: "in_flight key ph \<Longrightarrow> leads key2 ph \<Longrightarrow> key = key2"
  by (cases ph) simp_all

lemma one_leader_update:
  assumes "one_leader calls" and "i < length calls"
    and "\<forall>key. leads key ph \<longrightarrow> leads key (calls ! i) \<or> \<not> list_ex (leads key) calls"
    and "\<forall>key. leads key (calls ! i) \<longrightarrow> leads key ph"
    and "\<forall>n. ph = Joined n \<longrightarrow> list_ex (leads (n_ascii n)) calls"
  shows "one_leader (calls[i := ph])"
proof -
  have once: "j = k" if "j < length calls" "k < length calls" "leads key (calls ! j)" "leads key (calls ! k)" for key j k
    using assms(1) that by (auto simp: one_leader_def)
  have alone: "k = i" if k: "k < length calls" and lead: "leads key (calls[i := ph] ! k)" "leads key ph" for key k
  proof (rule ccontr)
    assume "k \<noteq> i"
    with lead have "leads key (calls ! k)" by simp
    moreover from this k have "list_ex (leads key) calls" by (auto simp: list_ex_iff)
    ultimately show False using assms(2,3) lead(2) once k \<open>k \<noteq> i\<close> by blast
  qed
  have "j = k" if jk: "j < length calls" "k < length calls"
    and lead: "leads key (calls[i := ph] ! j)" "leads key (calls[i := ph] ! k)" for key j k
  proof (cases "leads key ph")
    case True
    with alone jk lead show ?thesis by metis
  next
    case False
    with lead assms(2) have "j \<noteq> i" "k \<noteq> i" by auto
    with jk lead once show ?thesis by simp
  qed
  moreover have "\<exists>q \<in> set (calls[i := ph]). leads (n_ascii n) q" if "Joined n \<in> set (calls[i := ph])" for n
  proof -
    from that have "Joined n \<in> set calls \<or> ph = Joined n" using set_update_subset_insert by fastforce
    with assms(1,5) have "\<exists>q \<in> set calls. leads (n_ascii n) q" by (auto simp: one_leader_def list_ex_iff)
    then obtain j where j: "j < length calls" "leads (n_ascii n) (calls ! j)" by (auto simp: in_set_conv_nth)
    then have "leads (n_ascii n) (calls[i := ph] ! j)" using assms(2,4) by (cases "j = i") simp_all
    with j(1) show ?thesis by (metis length_list_update nth_mem)
  qed
  ultimately show ?thesis unfolding one_leader_def length_list_update by blast
qed

lemma length_land [simp]: "length (land reqs key r calls) = min (length reqs) (length calls)"
  by (simp add: land_def)

lemma land_nth:
  "i < length calls \<Longrightarrow> length calls = length reqs \<Longrightarrow> land reqs key r calls ! i =
     (if in_flight key (calls ! i) then Answered (answer_request (reqs ! i) r) else calls ! i)"
  by (simp add: land_def)

lemma one_leader_land:
  assumes "one_leader calls" and "length calls = length reqs"
  shows "one_leader (land reqs key r calls)"
proof -
  let ?calls = "land reqs key r calls"
  have old: "calls ! i = ?calls ! i \<and> \<not> in_flight key (calls ! i)"
    if "i < length calls" "in_flight k (?calls ! i)" for i k
    using that assms(2) by (auto simp: land_nth split: if_splits)
  have "\<exists>q \<in> set ?calls. leads (n_ascii n) q" if "Joined n \<in> set ?calls" for n
  proof -
    from that obtain i where i: "i < length calls" "?calls ! i = Joined n"
      using assms(2) by (auto simp: in_set_conv_nth)
    with old [OF i(1), of "n_ascii n"] have mine: "calls ! i = Joined n" "n_ascii n \<noteq> key" by auto
    with i(1) assms(1) have "\<exists>q \<in> set calls. leads (n_ascii n) q" by (metis nth_mem one_leader_def)
    then obtain j where j: "j < length calls" "leads (n_ascii n) (calls ! j)" by (auto simp: in_set_conv_nth)
    with mine(2) have "\<not> in_flight key (calls ! j)" using leads_some_key by blast
    with j assms(2) have "leads (n_ascii n) (?calls ! j)" by (simp add: land_nth)
    with j(1) assms(2) show ?thesis by (metis length_land min.idem nth_mem)
  qed
  moreover have "i = j" if "i < length calls" "j < length calls" "leads k (?calls ! i)" "leads k (?calls ! j)" for k i j
    using old [OF that(1) leads_in_flight [OF that(3)]] old [OF that(2) leads_in_flight [OF that(4)]] that assms(1)
    by (metis one_leader_def)
  ultimately show ?thesis unfolding one_leader_def length_land assms(2) min.idem by blast
qed

lemma flights_same [simp]: "b\<lparr>fl_cache := fl_cache b, fl_shared := s\<rparr> = b\<lparr>fl_shared := s\<rparr>"
  "b\<lparr>fl_cache := m, fl_shared := fl_shared b\<rparr> = b\<lparr>fl_cache := m\<rparr>"
  "b\<lparr>fl_shared := fl_shared b\<rparr> = b"
  "b\<lparr>fl_shared := s, fl_cache := m\<rparr> = b\<lparr>fl_cache := m, fl_shared := s\<rparr>"
  by simp_all

section \<open>The invariant of the calls\<close>

definition execution_ok :: "'s provider list \<Rightarrow> 's provider list \<Rightarrow> name \<Rightarrow> 's execution \<Rightarrow> bool" where
  "execution_ok prim corr n e =
     (case e of
        Running c \<Rightarrow> check_inv prim corr c
      | Computed r \<Rightarrow> good_value prim corr (n_ascii n) r
      | Stored r \<Rightarrow> good_value prim corr (n_ascii n) r)"

definition phase_ok :: "'s provider list \<Rightarrow> 's provider list \<Rightarrow> externals \<Rightarrow> string \<Rightarrow> 's phase \<Rightarrow> bool" where
  "phase_ok prim corr X input ph =
     (case ph of
        Arrived \<Rightarrow> True
      | Missed n \<Rightarrow> parse X input = Inr n
      | Leading n e \<Rightarrow> parse X input = Inr n \<and> execution_ok prim corr n e
      | Joined n \<Rightarrow> parse X input = Inr n
      | Answered r \<Rightarrow> answered X prim corr input r)"

definition cache_ok :: "'s provider list \<Rightarrow> 's provider list \<Rightarrow> entries \<Rightarrow> bool" where
  "cache_ok prim corr m = (\<forall>key entry. m key = Some entry \<longrightarrow> good_value prim corr key (ce_result entry))"

definition calls_inv :: "'s provider list \<Rightarrow> 's provider list \<Rightarrow> externals \<Rightarrow> request list \<Rightarrow> 's flights \<Rightarrow> bool" where
  "calls_inv prim corr X reqs b =
     (length (fl_calls b) = length reqs \<and> cache_ok prim corr (fl_cache b) \<and> one_leader (fl_calls b) \<and>
      (\<forall>i < length reqs. phase_ok prim corr X (rq_input (reqs ! i)) (fl_calls b ! i)))"

context source_chain
begin

lemma phase_ok_simps [simp]:
  "phase_ok prim corr X input Arrived"
  "phase_ok prim corr X input (Missed n) \<longleftrightarrow> parse X input = Inr n"
  "phase_ok prim corr X input (Leading n e) \<longleftrightarrow> parse X input = Inr n \<and> execution_ok prim corr n e"
  "phase_ok prim corr X input (Joined n) \<longleftrightarrow> parse X input = Inr n"
  "phase_ok prim corr X input (Answered r) \<longleftrightarrow> answered X prim corr input r"
  "execution_ok prim corr n (Running c) \<longleftrightarrow> check_inv prim corr c"
  "execution_ok prim corr n (Computed r) \<longleftrightarrow> good_value prim corr (n_ascii n) r"
  "execution_ok prim corr n (Stored r) \<longleftrightarrow> good_value prim corr (n_ascii n) r"
  by (simp_all add: phase_ok_def execution_ok_def)

lemma calls_inv_start: "cache_ok prim corr m \<Longrightarrow> calls_inv prim corr X reqs (flights_start reqs m s)"
  by (auto simp: calls_inv_def flights_start_def one_leader_def)

lemma calls_inv_phase:
  "calls_inv prim corr X reqs b \<Longrightarrow> call_is b i ph \<Longrightarrow> i < length reqs \<and> phase_ok prim corr X (rq_input (reqs ! i)) ph"
  by (auto simp: calls_inv_def call_is_def)

text \<open>The answer to a request about a name with a good value is a good answer.\<close>

lemma answer_request_ok:
  "parse X (rq_input rq) = Inr n \<Longrightarrow> good_value prim corr (n_ascii n) r \<Longrightarrow>
   answered X prim corr (rq_input rq) (answer_request rq r)"
  by (simp add: answered_def answer_request_def)

text \<open>Moving one call on, the cache and the shared state aside.\<close>

lemma calls_inv_set:
  assumes "calls_inv prim corr X reqs b" and "call_is b i old" and "cache_ok prim corr m"
    and "phase_ok prim corr X (rq_input (reqs ! i)) ph"
    and "\<forall>key. leads key ph \<longrightarrow> leads key old \<or> \<not> list_ex (leads key) (fl_calls b)"
    and "\<forall>key. leads key old \<longrightarrow> leads key ph"
    and "\<forall>n. ph = Joined n \<longrightarrow> list_ex (leads (n_ascii n)) (fl_calls b)"
  shows "calls_inv prim corr X reqs (set_call i ph (b\<lparr>fl_cache := m, fl_shared := s\<rparr>))"
proof -
  have "one_leader ((fl_calls b)[i := ph])"
    using assms by (intro one_leader_update) (auto simp: calls_inv_def call_is_def)
  with assms show ?thesis
    by (auto simp: calls_inv_def set_call_def call_is_def nth_list_update)
qed

lemma calls_inv_land:
  assumes "calls_inv prim corr X reqs b" and "call_is b i (Leading n (Stored r))"
  shows "calls_inv prim corr X reqs (b\<lparr>fl_calls := land reqs (n_ascii n) r (fl_calls b)\<rparr>)"
proof -
  have good: "good_value prim corr (n_ascii n) r" using calls_inv_phase [OF assms] by simp
  have "phase_ok prim corr X (rq_input (reqs ! j)) (land reqs (n_ascii n) r (fl_calls b) ! j)" if j: "j < length reqs" for j
  proof -
    have ok: "phase_ok prim corr X (rq_input (reqs ! j)) (fl_calls b ! j)" and len: "length (fl_calls b) = length reqs"
      using assms(1) j by (simp_all add: calls_inv_def)
    have "\<exists>m. parse X (rq_input (reqs ! j)) = Inr m \<and> n_ascii m = n_ascii n"
      if "in_flight (n_ascii n) (fl_calls b ! j)"
      using that ok by (cases "fl_calls b ! j") auto
    with ok j len good show ?thesis by (auto simp: land_nth) (metis answer_request_ok)
  qed
  moreover have "one_leader (land reqs (n_ascii n) r (fl_calls b))"
    using assms(1) by (intro one_leader_land) (simp_all add: calls_inv_def)
  ultimately show ?thesis using assms(1) by (simp add: calls_inv_def)
qed

lemma cache_ok_get: "cache_ok prim corr m \<Longrightarrow> cache_get t key m = (hit, m1) \<Longrightarrow>
    cache_ok prim corr m1 \<and> (\<forall>r. hit = Some r \<longrightarrow> good_value prim corr key r)"
  unfolding cache_ok_def using cache_get_good by blast

lemma cache_ok_put: "cache_ok prim corr m \<Longrightarrow> good_value prim corr key r \<Longrightarrow> cache_ok prim corr (cache_put ttl t key r m)"
  unfolding cache_ok_def by (rule cache_put_good)

lemma cache_ok_purge: "cache_ok prim corr m \<Longrightarrow> cache_ok prim corr (cache_purge t m)"
  by (auto simp: cache_ok_def cache_purge_def split: option.splits if_splits)

lemma check_inv_shared [simp]: "check_inv prim corr (c\<lparr>ck_shared := s\<rparr>) = check_inv prim corr c"
  by (simp add: check_inv_def)

text \<open>The forms of \<open>calls_inv_set\<close> that the steps use: without a new leader, and with the leader kept.\<close>

lemma calls_inv_move:
  assumes "calls_inv prim corr X reqs b" and "call_is b i old" and "cache_ok prim corr m" and "phase_ok prim corr X (rq_input (reqs ! i)) ph"
    and "\<forall>key. leads key old = leads key ph" and "\<forall>n. ph \<noteq> Joined n"
  shows "calls_inv prim corr X reqs (set_call i ph (b\<lparr>fl_cache := m, fl_shared := s\<rparr>))"
  using assms by (intro calls_inv_set) auto

lemma call_step_inv:
  assumes "call_step X now en focus reqs b c" and "calls_inv prim corr X reqs b"
    and "en_primary en = prim" and "en_corroborating en = corr"
  shows "calls_inv prim corr X reqs c"
proof -
  have m: "cache_ok prim corr (fl_cache b)" using assms(2) by (simp add: calls_inv_def)
  note inv = assms(2) and get = cache_ok_get [OF m]
  from assms(1) show ?thesis
  proof cases
    case (reject i e)
    with calls_inv_move [OF inv reject(2) m, of "Answered _" "fl_shared b"] show ?thesis
      by (simp add: answered_def invalid_result_def)
  next
    case (hit i n r m1)
    with calls_inv_move [OF inv hit(2), of m1 "Answered _" "fl_shared b"] get [OF hit(4)] show ?thesis
      by (simp add: answer_request_ok)
  next
    case (miss i n m1)
    with calls_inv_move [OF inv miss(2), of m1 "Missed n" "fl_shared b"] get [OF miss(4)] show ?thesis by simp
  next
    case (lead i n)
    have "check_inv prim corr (check_start en (fl_shared b))" by (rule check_inv_start [OF assms(3,4)])
    with lead calls_inv_phase [OF inv lead(2)]
      calls_inv_set [OF inv lead(2) m, of "Leading n (Running (check_start en (fl_shared b)))" "fl_shared b"]
    show ?thesis by simp
  next
    case (join i n)
    with calls_inv_phase [OF inv join(2)] calls_inv_set [OF inv join(2) m, of "Joined n" "fl_shared b"]
    show ?thesis by simp
  next
    case (work i n c d)
    note old = calls_inv_phase [OF inv work(2)]
    then have "check_inv prim corr d" using check_step_inv [OF work(3)] by simp
    with old work(1) calls_inv_move [OF inv work(2) m, of "Leading n (Running d)" "ck_shared d"]
    show ?thesis by simp
  next
    case (compute i n c)
    note old = calls_inv_phase [OF inv compute(2)]
    then have "good_value prim corr (n_ascii n) (assemble n (ck_results c) (now (fl_shared b)))"
      using check_done_good compute(3) by simp
    with old compute(1) calls_inv_move [OF inv compute(2) m, of "Leading n (Computed _)" "fl_shared b"]
    show ?thesis by simp
  next
    case (store i n r)
    note old = calls_inv_phase [OF inv store(2)]
    then have "cache_ok prim corr (cache_put (en_ttl en) (now (fl_shared b)) (n_ascii n) r (fl_cache b))"
      using cache_ok_put [OF m] by simp
    with old store(1) calls_inv_move [OF inv store(2), of _ "Leading n (Stored r)" "fl_shared b"]
    show ?thesis by simp
  next
    case (return i n r)
    with calls_inv_land [OF inv] show ?thesis by simp
  qed
qed

lemma outside_step_inv: "outside_step now b c \<Longrightarrow> calls_inv prim corr X reqs b \<Longrightarrow> calls_inv prim corr X reqs c"
  by (erule outside_stepE) (simp_all add: calls_inv_def cache_ok_purge)

lemma calls_run_inv:
  assumes "calls_run X now en focus reqs b k c" and "calls_inv prim corr X reqs b"
    and "en_primary en = prim" and "en_corroborating en = corr"
  shows "calls_inv prim corr X reqs c"
  using assms(1,2)
proof (induction rule: calls_run.induct)
  case refl
  then show ?case by simp
next
  case (own k c d)
  with call_step_inv assms(3,4) show ?case by blast
next
  case (outside k c d)
  with outside_step_inv show ?case by blast
qed

end

section \<open>The work that is left\<close>

text \<open>
  Every step of a call brings it closer to its answer: \<open>calls_left\<close> is what the calls still have to do,
  with \<open>k\<close> sources to ask.
\<close>

fun phase_left :: "nat \<Rightarrow> 's phase \<Rightarrow> nat" where
  "phase_left k Arrived = k + 5"
| "phase_left k (Missed n) = k + 4"
| "phase_left k (Leading n (Running c)) = length (ck_pending c) + length (ck_chain c) + 3"
| "phase_left k (Leading n (Computed r)) = 2"
| "phase_left k (Leading n (Stored r)) = 1"
| "phase_left k (Joined n) = 0"
| "phase_left k (Answered r) = 0"

definition calls_left :: "nat \<Rightarrow> 's flights \<Rightarrow> nat" where
  "calls_left k b = sum_list (map (phase_left k) (fl_calls b))"

lemma calls_left_set:
  assumes "call_is b i old" and "phase_left k ph < phase_left k old"
  shows "calls_left k (set_call i ph (b\<lparr>fl_cache := m, fl_shared := s\<rparr>)) < calls_left k b"
  unfolding calls_left_def
  using assms by (intro sum_list_less [where i = i]) (auto simp: set_call_def call_is_def nth_list_update)

lemma check_step_left:
  assumes "check_step en n (\<lambda>_ _. False) c d"
  shows "length (ck_pending d) + length (ck_chain d) < length (ck_pending c) + length (ck_chain c)"
  using assms
proof cases
  case (primary p ps)
  then show ?thesis using advance_shorter [of en n p ps c] by simp
qed simp_all

lemma call_step_left:
  assumes "call_step X now en focus reqs b c" and "length (fl_calls b) = length reqs"
    and "length (en_primary en) + length (en_corroborating en) \<le> k"
  shows "calls_left k c < calls_left k b"
  using assms(1)
proof cases
  case (reject i e)
  with calls_left_set [OF reject(2), of k "Answered _" "fl_shared b" "fl_cache b"] show ?thesis by simp
next
  case (hit i n r m1)
  with calls_left_set [OF hit(2), of k "Answered _" "fl_shared b" m1] show ?thesis by simp
next
  case (miss i n m1)
  with calls_left_set [OF miss(2), of k "Missed n" "fl_shared b" m1] show ?thesis by simp
next
  case (lead i n)
  with assms(3) calls_left_set [OF lead(2), of k "Leading n (Running (check_start en (fl_shared b)))" "fl_shared b" "fl_cache b"]
  show ?thesis by (simp add: check_start_def)
next
  case (join i n)
  with calls_left_set [OF join(2), of k "Joined n" "fl_shared b" "fl_cache b"] show ?thesis by simp
next
  case (work i n c d)
  with check_step_left [OF work(3)]
    calls_left_set [OF work(2), of k "Leading n (Running d)" "ck_shared d" "fl_cache b"]
  show ?thesis by simp
next
  case (compute i n c)
  with calls_left_set [OF compute(2), of k "Leading n (Computed _)" "fl_shared b" "fl_cache b"] show ?thesis by simp
next
  case (store i n r)
  with calls_left_set [OF store(2), of k "Leading n (Stored r)" "fl_shared b" _] show ?thesis by simp
next
  case (return i n r)
  from return(2) have i: "i < length (fl_calls b)" "fl_calls b ! i = Leading n (Stored r)" by (simp_all add: call_is_def)
  have "calls_left k (b\<lparr>fl_calls := land reqs (n_ascii n) r (fl_calls b)\<rparr>) < calls_left k b"
    unfolding calls_left_def
    using i assms(2) by (intro sum_list_less [where i = i]) (auto simp: land_nth)
  with return show ?thesis by simp
qed

lemma call_step_length: "call_step X now en focus reqs b c \<Longrightarrow> length (fl_calls b) = length reqs \<Longrightarrow> length (fl_calls c) = length reqs"
  by (erule call_step.cases) (simp_all add: set_call_def)

lemma outside_step_calls: "outside_step now b c \<Longrightarrow> fl_calls c = fl_calls b"
  by (erule outside_stepE) simp_all

lemma calls_run_left:
  assumes "calls_run X now en focus reqs b k c" and "length (fl_calls b) = length reqs"
  shows "length (fl_calls c) = length reqs \<and>
    k + calls_left (length (en_primary en) + length (en_corroborating en)) c \<le>
      calls_left (length (en_primary en) + length (en_corroborating en)) b"
  using assms
proof (induction rule: calls_run.induct)
  case (refl b)
  then show ?case by simp
next
  case (own b k c d)
  with call_step_left [OF own(2) _ order.refl] call_step_length [OF own(2)] show ?case by fastforce
next
  case (outside b k c d)
  with outside_step_calls [OF outside(2)] show ?case by (simp add: calls_left_def)
qed

section \<open>No call is stuck\<close>

lemma calls_run_append:
  assumes "calls_run X now en focus reqs c l d" and "calls_run X now en focus reqs b k c"
  shows "calls_run X now en focus reqs b (k + l) d"
  using assms by (induction rule: calls_run.induct) (auto intro: calls_run.intros)

lemma calls_run_steps: "(call_step X now en focus reqs)\<^sup>*\<^sup>* b c \<Longrightarrow> \<exists>k. calls_run X now en focus reqs b k c"
  by (induction rule: rtranclp_induct) (auto intro: calls_run.intros)

lemma ck_pending_shared: "ck_pending (c\<lparr>ck_shared := s\<rparr>) = ck_pending c"
  by simp

definition calm :: "'s flights \<Rightarrow> bool" where
  "calm b = (\<forall>n c. Leading n (Running c) \<in> set (fl_calls b) \<longrightarrow> \<not> ck_panic c)"

context source_chain
begin

lemma call_step_calm:
  assumes "call_step X now en focus reqs b c" and "calls_inv prim corr X reqs b" and "calm b" and "never_panics en"
    and "en_primary en = prim" and "en_corroborating en = corr"
  shows "calm c"
proof -
  have set: "calm (set_call i ph (b\<lparr>fl_cache := m, fl_shared := s\<rparr>))"
    if "\<forall>n c. ph = Leading n (Running c) \<longrightarrow> \<not> ck_panic c" for i ph m s
    using that assms(3) set_update_subset_insert [of "fl_calls b" i ph] by (fastforce simp: calm_def set_call_def)
  from assms(1) show ?thesis
  proof cases
    case (work i n c d)
    from calls_inv_phase [OF assms(2) work(2)] have "check_inv prim corr c" by simp
    then have "set (ck_pending c) \<union> set (ck_chain c) \<subseteq> set (prim @ corr)" by (auto simp: check_inv_def)
    moreover have "\<not> ck_panic c" using assms(3) work(2) by (metis calm_def call_is_def nth_mem)
    moreover have "\<forall>p \<in> set (prim @ corr). \<forall>s. fst (run en p n s) \<noteq> Panic"
      using assms(4-6) by (simp add: never_panics_def)
    moreover have "check_steps en n (\<lambda>_ _. False) (c\<lparr>ck_shared := focus i (fl_shared b)\<rparr>) d"
      using work(3) by (rule r_into_rtranclp)
    note check_steps_no_panic [OF this, of "prim @ corr"]
    ultimately have "\<not> ck_panic d" by simp
    with work(1) set [of "Leading n (Running d)" i "ck_shared d" "fl_cache b"] show ?thesis by simp
  next
    case (return i n r)
    have "set (land reqs (n_ascii n) r (fl_calls b)) \<subseteq> set (fl_calls b) \<union> range Answered"
      by (auto simp: land_def dest: set_zip_rightD)
    with assms(3) return show ?thesis by (fastforce simp: calm_def)
  qed (use set [where m = "fl_cache b" and s = "fl_shared b"] set [where s = "fl_shared b"] in \<open>simp_all add: check_start_def\<close>)
qed

lemma calls_run_calm:
  assumes "calls_run X now en focus reqs b k c" and "calls_inv prim corr X reqs b" and "calm b" and "never_panics en"
    and "en_primary en = prim" and "en_corroborating en = corr"
  shows "calm c"
  using assms(1-3)
proof (induction rule: calls_run.induct)
  case (own b k c d)
  with call_step_calm [OF own(2) calls_run_inv [OF own(1)]] assms(4-6) show ?case by blast
next
  case (outside b k c d)
  with outside_step_calls [OF outside(2)] show ?case by (simp add: calm_def)
qed

text \<open>A call that executes can always go on.\<close>

lemma leader_progress:
  assumes "call_is b i (Leading n e)" and "calm b"
  shows "\<exists>c. call_step X now en focus reqs b c"
proof (cases e)
  case (Running c)
  let ?c = "c\<lparr>ck_shared := focus i (fl_shared b)\<rparr>"
  from assms Running have calm: "\<not> ck_panic ?c" by (simp add: calm_def call_is_def) (metis nth_mem)
  have "\<exists>d. check_step en n (\<lambda>_ _. False) ?c d" if "\<not> check_done c"
  proof (cases "ck_pending c")
    case (Cons p ps)
    with calm show ?thesis by (metis append_Nil check_step.corroborating ck_pending_shared)
  next
    case Nil
    with that calm obtain p ps where "ck_chain ?c = p # ps" by (cases "ck_chain c") (auto simp: check_done_def)
    with calm show ?thesis by (metis check_step.primary)
  qed
  with assms(1) Running show ?thesis by (metis call_step.work call_step.compute)
next
  case (Computed r)
  with assms(1) call_step.store show ?thesis by metis
next
  case (Stored r)
  with assms(1) call_step.return show ?thesis by metis
qed

lemma call_progress:
  assumes "calls_inv prim corr X reqs b" and "calm b" and "\<not> all_answered b"
  shows "\<exists>c. call_step X now en focus reqs b c"
proof -
  from assms(3) obtain j where j: "j < length (fl_calls b)" "\<not> (case fl_calls b ! j of Answered r \<Rightarrow> True | _ \<Rightarrow> False)"
    by (auto simp: all_answered_def list_all_length)
  then obtain i ph where i: "call_is b i ph" and open_call: "\<forall>r. ph \<noteq> Answered r"
    by (fastforce simp: call_is_def)
  show ?thesis
  proof (cases ph)
    case Arrived
    show ?thesis
    proof (cases "parse X (rq_input (reqs ! i))")
      case (Inl e)
      with i Arrived call_step.reject show ?thesis by metis
    next
      case (Inr n)
      obtain got m where get: "cache_get (now (fl_shared b)) (n_ascii n) (fl_cache b) = (got, m)" by fastforce
      note arrived = i [unfolded Arrived]
      show ?thesis
      proof (cases got)
        case None
        with get call_step.miss [OF arrived Inr] show ?thesis by blast
      next
        case (Some r)
        with get call_step.hit [OF arrived Inr] show ?thesis by blast
      qed
    qed
  next
    case (Missed n)
    with i call_step.lead call_step.join show ?thesis by metis
  next
    case (Leading n e)
    with i assms(2) leader_progress show ?thesis by metis
  next
    case (Joined n)
    with i have "Joined n \<in> set (fl_calls b)" by (metis call_is_def nth_mem)
    with assms(1) obtain q where q: "q \<in> set (fl_calls b)" "leads (n_ascii n) q"
      by (auto simp: calls_inv_def one_leader_def)
    then obtain m e where "q = Leading m e" using leads_leading by blast
    with q(1) obtain j where "call_is b j (Leading m e)" by (auto simp: call_is_def in_set_conv_nth)
    with assms(2) leader_progress show ?thesis by metis
  next
    case (Answered r)
    with open_call show ?thesis by simp
  qed
qed

end

end
