(* ===== verification/RdapParse.thy ===== *)
theory RdapParse
  imports Provider
begin

text \<open>
  \<^theory_text>\<open>internal/provider/rdap/parse.go\<close>: reading an RDAP payload. The syntax of JSON is
  \<open>x_parse_json\<close>; how \<^theory_text>\<open>encoding/json\<close> fills the fields of the response structure from the tree
  (names matched without regard to case, \<open>null\<close> leaving a field alone, a value of the wrong kind
  an error) is modelled here. A repeated key overwrites.
\<close>

section \<open>Filling the structures\<close>

definition dec_string :: "string \<Rightarrow> json \<Rightarrow> string option" where
  "dec_string old v = (case v of JStr s \<Rightarrow> Some s | JNull \<Rightarrow> Some old | _ \<Rightarrow> None)"

fun dec_all :: "(json \<Rightarrow> 'a option) \<Rightarrow> json list \<Rightarrow> 'a list option" where
  "dec_all f [] = Some []"
| "dec_all f (v # vs) =
     (case f v of None \<Rightarrow> None | Some x \<Rightarrow> map_option (\<lambda>xs. x # xs) (dec_all f vs))"

definition dec_list :: "(json \<Rightarrow> 'a option) \<Rightarrow> json \<Rightarrow> 'a list option" where
  "dec_list f v = (case v of JArr vs \<Rightarrow> dec_all f vs | JNull \<Rightarrow> Some [] | _ \<Rightarrow> None)"

fun dec_fields :: "(string \<Rightarrow> json \<Rightarrow> 'a \<Rightarrow> 'a option) \<Rightarrow> (string \<times> json) list \<Rightarrow> 'a \<Rightarrow> 'a option" where
  "dec_fields f [] x = Some x"
| "dec_fields f ((k, v) # kvs) x = (case f k v x of None \<Rightarrow> None | Some y \<Rightarrow> dec_fields f kvs y)"

definition dec_struct :: "(string \<Rightarrow> json \<Rightarrow> 'a \<Rightarrow> 'a option) \<Rightarrow> 'a \<Rightarrow> json \<Rightarrow> 'a option" where
  "dec_struct f x v = (case v of JObj kvs \<Rightarrow> dec_fields f kvs x | JNull \<Rightarrow> Some x | _ \<Rightarrow> None)"

record rdap_event =
  re_action :: string
  re_date :: string
  re_actor :: string

record public_id =
  pi_type :: string
  pi_identifier :: string

record entity =
  en_handle :: string
  en_roles :: "string list"
  en_public_ids :: "public_id list"
  en_vcard :: "json list"

record response =
  rp_object_class_name :: string
  rp_ldh_name :: string
  rp_unicode_name :: string
  rp_handle :: string
  rp_status :: "string list"
  rp_events :: "rdap_event list"
  rp_nameservers :: "string list"
  rp_secure_dns :: "bool option option"
  rp_entities :: "entity list"

definition zero_response :: response where
  "zero_response =
     \<lparr>rp_object_class_name = [], rp_ldh_name = [], rp_unicode_name = [], rp_handle = [],
      rp_status = [], rp_events = [], rp_nameservers = [], rp_secure_dns = None, rp_entities = []\<rparr>"

definition event_field :: "string \<Rightarrow> json \<Rightarrow> rdap_event \<Rightarrow> rdap_event option" where
  "event_field k v e =
     (if equal_fold k ''eventAction'' then map_option (\<lambda>s. e\<lparr>re_action := s\<rparr>) (dec_string (re_action e) v)
      else if equal_fold k ''eventDate'' then map_option (\<lambda>s. e\<lparr>re_date := s\<rparr>) (dec_string (re_date e) v)
      else if equal_fold k ''eventActor'' then map_option (\<lambda>s. e\<lparr>re_actor := s\<rparr>) (dec_string (re_actor e) v)
      else Some e)"

text \<open>A name server is a structure with the one field \<open>ldhName\<close>.\<close>

definition nameserver_field :: "string \<Rightarrow> json \<Rightarrow> string \<Rightarrow> string option" where
  "nameserver_field k v s = (if equal_fold k ''ldhName'' then dec_string s v else Some s)"

definition secure_dns_field :: "string \<Rightarrow> json \<Rightarrow> bool option \<Rightarrow> bool option option" where
  "secure_dns_field k v d =
     (if equal_fold k ''delegationSigned''
      then (case v of JBool b \<Rightarrow> Some (Some b) | JNull \<Rightarrow> Some None | _ \<Rightarrow> None)
      else Some d)"

definition public_id_field :: "string \<Rightarrow> json \<Rightarrow> public_id \<Rightarrow> public_id option" where
  "public_id_field k v p =
     (if equal_fold k ''type'' then map_option (\<lambda>s. p\<lparr>pi_type := s\<rparr>) (dec_string (pi_type p) v)
      else if equal_fold k ''identifier''
      then map_option (\<lambda>s. p\<lparr>pi_identifier := s\<rparr>) (dec_string (pi_identifier p) v)
      else Some p)"

definition entity_field :: "string \<Rightarrow> json \<Rightarrow> entity \<Rightarrow> entity option" where
  "entity_field k v e =
     (if equal_fold k ''handle'' then map_option (\<lambda>s. e\<lparr>en_handle := s\<rparr>) (dec_string (en_handle e) v)
      else if equal_fold k ''roles''
      then map_option (\<lambda>rs. e\<lparr>en_roles := rs\<rparr>) (dec_list (dec_string []) v)
      else if equal_fold k ''publicIds''
      then map_option (\<lambda>ps. e\<lparr>en_public_ids := ps\<rparr>)
             (dec_list (dec_struct public_id_field \<lparr>pi_type = [], pi_identifier = []\<rparr>) v)
      else if equal_fold k ''vcardArray''
      then map_option (\<lambda>vs. e\<lparr>en_vcard := vs\<rparr>) (dec_list Some v)
      else Some e)"

definition response_field :: "string \<Rightarrow> json \<Rightarrow> response \<Rightarrow> response option" where
  "response_field k v r =
     (if equal_fold k ''objectClassName''
      then map_option (\<lambda>s. r\<lparr>rp_object_class_name := s\<rparr>) (dec_string (rp_object_class_name r) v)
      else if equal_fold k ''ldhName''
      then map_option (\<lambda>s. r\<lparr>rp_ldh_name := s\<rparr>) (dec_string (rp_ldh_name r) v)
      else if equal_fold k ''unicodeName''
      then map_option (\<lambda>s. r\<lparr>rp_unicode_name := s\<rparr>) (dec_string (rp_unicode_name r) v)
      else if equal_fold k ''handle''
      then map_option (\<lambda>s. r\<lparr>rp_handle := s\<rparr>) (dec_string (rp_handle r) v)
      else if equal_fold k ''status''
      then map_option (\<lambda>ss. r\<lparr>rp_status := ss\<rparr>) (dec_list (dec_string []) v)
      else if equal_fold k ''events''
      then map_option (\<lambda>es. r\<lparr>rp_events := es\<rparr>)
             (dec_list (dec_struct event_field \<lparr>re_action = [], re_date = [], re_actor = []\<rparr>) v)
      else if equal_fold k ''nameservers''
      then map_option (\<lambda>ns. r\<lparr>rp_nameservers := ns\<rparr>) (dec_list (dec_struct nameserver_field []) v)
      else if equal_fold k ''secureDNS''
      then (case v of
              JNull \<Rightarrow> Some (r\<lparr>rp_secure_dns := None\<rparr>)
            | _ \<Rightarrow> map_option (\<lambda>d. r\<lparr>rp_secure_dns := Some d\<rparr>)
                     (dec_struct secure_dns_field
                        (case rp_secure_dns r of None \<Rightarrow> None | Some d \<Rightarrow> d) v))
      else if equal_fold k ''entities''
      then map_option (\<lambda>es. r\<lparr>rp_entities := es\<rparr>)
             (dec_list (dec_struct entity_field
                \<lparr>en_handle = [], en_roles = [], en_public_ids = [], en_vcard = []\<rparr>) v)
      else Some r)"

definition decode_response :: "json \<Rightarrow> response option" where
  "decode_response v = dec_struct response_field zero_response v"

section \<open>Lifecycle statuses\<close>

definition status_mapping :: "(string \<times> status) list" where
  "status_mapping =
     [(''pending delete'', StatusPendingDelete), (''redemption period'', StatusRedemption),
      (''pending restore'', StatusRedemption), (''reserved'', StatusReserved),
      (''administrative reserved'', StatusReserved), (''blocked'', StatusBlocked)]"

fun match_mapping :: "string \<Rightarrow> (string \<times> status) list \<Rightarrow> status option" where
  "match_mapping s [] = None"
| "match_mapping s ((phrase, st) # ms) = (if contains s phrase then Some st else match_mapping s ms)"

text \<open>
  The nested loop: the first status of the payload with a mapped phrase decides, since every mapped
  status differs from \<open>StatusRegistered\<close> and so ends the outer loop.
\<close>

fun scan_statuses :: "externals \<Rightarrow> string list \<Rightarrow> (status \<times> string) option" where
  "scan_statuses X [] = None"
| "scan_statuses X (raw # raws) =
     (let normalized = lower X (trim_space raw)
      in case match_mapping normalized status_mapping of
           Some st \<Rightarrow> Some (st, normalized)
         | None \<Rightarrow> scan_statuses X raws)"

definition underscored :: "string \<Rightarrow> string" where
  "underscored s = map (\<lambda>c. if c = CHR '' '' then CHR ''_'' else c) s"

section \<open>Registration details\<close>

definition rdap_time_layouts :: "string list" where
  "rdap_time_layouts =
     [''2006-01-02T15:04:05Z07:00'', ''2006-01-02T15:04:05'', ''2006-01-02T15:04:05Z0700'', ''2006-01-02'']"

fun try_layouts :: "externals \<Rightarrow> string list \<Rightarrow> string \<Rightarrow> time option" where
  "try_layouts X [] value = None"
| "try_layouts X (layout # layouts) value =
     (case x_parse_time X layout value of Some t \<Rightarrow> Some t | None \<Rightarrow> try_layouts X layouts value)"

definition parse_rdap_time :: "externals \<Rightarrow> string \<Rightarrow> time option" where
  "parse_rdap_time X value0 =
     (let value = trim_space value0
      in if value = [] then None else try_layouts X rdap_time_layouts value)"

definition has_role :: "string list \<Rightarrow> string \<Rightarrow> bool" where
  "has_role roles want = list_ex (\<lambda>role. equal_fold role want) roles"

fun vcard_entries :: "json list \<Rightarrow> string \<Rightarrow> string" where
  "vcard_entries [] property = []"
| "vcard_entries (entry # entries) property =
     (case entry of
        JArr (JStr key # _ # _ # value # _) \<Rightarrow>
          if equal_fold key property
          then (case value of JStr s \<Rightarrow> s | _ \<Rightarrow> vcard_entries entries property)
          else vcard_entries entries property
      | _ \<Rightarrow> vcard_entries entries property)"

definition vcard_value :: "json list \<Rightarrow> string \<Rightarrow> string" where
  "vcard_value vcard property =
     (case vcard of _ # JArr entries # _ \<Rightarrow> vcard_entries entries property | _ \<Rightarrow> [])"

fun iana_id :: "public_id list \<Rightarrow> string \<Rightarrow> string" where
  "iana_id [] acc = acc"
| "iana_id (p # ps) acc =
     iana_id ps (if equal_fold (pi_type p) ''IANA Registrar ID'' then pi_identifier p else acc)"

fun find_registrar :: "entity list \<Rightarrow> string \<times> string" where
  "find_registrar [] = ([], [])"
| "find_registrar (e # es) =
     (if \<not> has_role (en_roles e) ''registrar'' then find_registrar es
      else let ident = iana_id (en_public_ids e) []; fn = vcard_value (en_vcard e) ''fn''
           in if fn \<noteq> [] then (fn, ident) else (en_handle e, ident))"

definition info_event :: "externals \<Rightarrow> rdap_event \<Rightarrow> domain_info \<Rightarrow> domain_info" where
  "info_event X ev i =
     (case parse_rdap_time X (re_date ev) of
        None \<Rightarrow> i
      | Some date \<Rightarrow>
          let action = lower X (re_action ev);
              i1 = i\<lparr>di_events := di_events i @ [\<lparr>ev_action = action, ev_date = date, ev_actor = re_actor ev\<rparr>]\<rparr>
          in if action = ''registration'' then i1\<lparr>di_registration_date := Some date\<rparr>
             else if action = ''expiration'' then i1\<lparr>di_expiration_date := Some date\<rparr>
             else if action = ''last changed'' then i1\<lparr>di_last_changed_date := Some date\<rparr>
             else i1)"

definition build_info :: "externals \<Rightarrow> response \<Rightarrow> name \<Rightarrow> string \<Rightarrow> domain_info" where
  "build_info X resp n source =
     (let i0 = zero_info\<lparr>di_domain := n_input n, di_normalized_domain := n_ascii n,
                 di_registered := True, di_statuses := rp_status resp, di_source := source,
                 di_provider := rdap_name\<rparr>;
          i1 = i0\<lparr>di_nameservers := map (lower X) (filter (\<lambda>h. h \<noteq> []) (rp_nameservers resp))\<rparr>;
          i2 = (case rp_secure_dns resp of Some (Some b) \<Rightarrow> i1\<lparr>di_dnssec := Some b\<rparr> | _ \<Rightarrow> i1);
          i3 = fold (info_event X) (rp_events resp) i2;
          (registrar, ident) = find_registrar (rp_entities resp)
      in if registrar \<noteq> [] \<or> ident \<noteq> []
         then i3\<lparr>di_registrar := registrar, di_registrar_iana_id := ident\<rparr> else i3)"

definition parse_response :: "externals \<Rightarrow> string \<Rightarrow> name \<Rightarrow> string \<Rightarrow> go_error + provider_result" where
  "parse_response X body n source =
     (case x_parse_json X body of
        None \<Rightarrow> Inl (Wrapped ''rdap: malformed response'' (Failure (n_ascii n)))
      | Some tree \<Rightarrow>
          (case decode_response tree of
             None \<Rightarrow> Inl (Wrapped ''rdap: malformed response'' (Failure (n_ascii n)))
           | Some resp \<Rightarrow>
               let (status, extra) =
                     (case scan_statuses X (rp_status resp) of
                        None \<Rightarrow> (StatusRegistered, [])
                      | Some (st, s) \<Rightarrow> (st, [evidence_tag rdap_name (underscored s)]))
               in Inr (zero_result\<lparr>pr_provider := rdap_name, pr_registration := RegistrationRegistered,
                         pr_status := status,
                         pr_evidence := evidence_tag rdap_name ''registration_exists'' # extra,
                         pr_source := source, pr_raw := RawJson tree,
                         pr_info := Some (build_info X resp n source)\<rparr>)))"

section \<open>Lemmas\<close>

lemma match_mapping_status:
  "match_mapping s status_mapping = Some st \<Longrightarrow>
   st \<in> {StatusPendingDelete, StatusRedemption, StatusReserved, StatusBlocked}"
  by (auto simp: status_mapping_def split: if_splits)

lemma match_mapping_None: "match_mapping s ms = None \<longleftrightarrow> (\<forall>(p, st) \<in> set ms. \<not> contains s p)"
  by (induction s ms rule: match_mapping.induct) auto

lemma scan_statuses_status:
  "scan_statuses X raws = Some (st, s) \<Longrightarrow>
   st \<in> {StatusPendingDelete, StatusRedemption, StatusReserved, StatusBlocked}"
  by (induction raws) (auto simp: Let_def split: option.splits dest: match_mapping_status)

lemma scan_statuses_None:
  "scan_statuses X raws = None \<longleftrightarrow>
   (\<forall>raw \<in> set raws. \<forall>(p, st) \<in> set status_mapping. \<not> contains (lower X (trim_space raw)) p)"
  by (induction raws) (auto simp: Let_def simp flip: match_mapping_None split: option.splits)

lemma parse_response_InrE:
  assumes "parse_response X body n source = Inr r"
  obtains tree resp where "x_parse_json X body = Some tree" "decode_response tree = Some resp"
    "pr_provider r = rdap_name" "pr_registration r = RegistrationRegistered"
    "pr_status r = (case scan_statuses X (rp_status resp) of None \<Rightarrow> StatusRegistered | Some (st, s) \<Rightarrow> st)"
    "pr_evidence r = evidence_tag rdap_name ''registration_exists'' #
       (case scan_statuses X (rp_status resp) of None \<Rightarrow> []
        | Some (st, s) \<Rightarrow> [evidence_tag rdap_name (underscored s)])"
    "pr_info r = Some (build_info X resp n source)" "pr_source r = source" "pr_raw r = RawJson tree"
  using assms by (auto simp: parse_response_def Let_def split: option.splits prod.splits)

lemma parse_response_ok:
  "x_parse_json X body = Some tree \<Longrightarrow> decode_response tree = Some resp \<Longrightarrow>
   \<exists>r. parse_response X body n source = Inr r"
  by (simp add: parse_response_def Let_def split: prod.split)

lemma info_event_frame:
  "di_domain (info_event X ev i) = di_domain i \<and>
   di_normalized_domain (info_event X ev i) = di_normalized_domain i \<and>
   di_registered (info_event X ev i) = di_registered i \<and>
   di_statuses (info_event X ev i) = di_statuses i \<and>
   di_nameservers (info_event X ev i) = di_nameservers i \<and>
   di_provider (info_event X ev i) = di_provider i"
  by (simp add: info_event_def Let_def split: option.split)

lemma info_events_frame:
  "di_domain (fold (info_event X) evs i) = di_domain i \<and>
   di_normalized_domain (fold (info_event X) evs i) = di_normalized_domain i \<and>
   di_registered (fold (info_event X) evs i) = di_registered i \<and>
   di_statuses (fold (info_event X) evs i) = di_statuses i \<and>
   di_nameservers (fold (info_event X) evs i) = di_nameservers i \<and>
   di_provider (fold (info_event X) evs i) = di_provider i"
  by (induction evs arbitrary: i) (simp_all add: info_event_frame)

lemma scan_statuses_first:
  assumes "\<forall>raw \<in> set before. match_mapping (lower X (trim_space raw)) status_mapping = None"
    and "match_mapping (lower X (trim_space raw)) status_mapping = Some st"
  shows "scan_statuses X (before @ raw # after) = Some (st, lower X (trim_space raw))"
  using assms by (induction before) (simp_all add: Let_def)

lemma build_info_frame:
  "di_registered (build_info X resp n source)" "di_domain (build_info X resp n source) = n_input n"
  "di_normalized_domain (build_info X resp n source) = n_ascii n"
  "di_statuses (build_info X resp n source) = rp_status resp"
  "di_provider (build_info X resp n source) = rdap_name"
  "di_nameservers (build_info X resp n source) = map (lower X) (filter (\<lambda>h. h \<noteq> []) (rp_nameservers resp))"
  by (simp_all add: build_info_def Let_def info_events_frame split: prod.split option.split bool.split)

lemma parse_response_coherent:
  assumes "parse_response X body n source = Inr r"
  shows "coherent rdap_name r" "pr_registration r = RegistrationRegistered"
  using assms
  by (auto elim!: parse_response_InrE simp: coherent_def build_info_frame split: option.splits
      dest: scan_statuses_status)

section \<open>Properties\<close>

text \<open>
  An answer read from a payload always says that the name is registered, is coherent, and
  carries registration details for the name asked for, with the statuses of the payload and its
  named name servers in lower case.
\<close>

lemma parse_response_registered:
  assumes "parse_response X body n source = Inr r"
  shows "pr_registration r = RegistrationRegistered \<and> coherent rdap_name r \<and> pr_status r \<noteq> StatusAvailable \<and>
    (\<exists>tree resp info. x_parse_json X body = Some tree \<and> decode_response tree = Some resp \<and>
       pr_info r = Some info \<and> di_registered info \<and> di_normalized_domain info = n_ascii n \<and>
       di_statuses info = rp_status resp \<and>
       di_nameservers info = map (lower X) (filter (\<lambda>h. h \<noteq> []) (rp_nameservers resp)))"
proof -
  note coh = parse_response_coherent [OF assms]
  then have "pr_status r \<noteq> StatusAvailable" by (auto simp: coherent_def)
  moreover from assms obtain tree resp where "x_parse_json X body = Some tree"
    "decode_response tree = Some resp" "pr_info r = Some (build_info X resp n source)"
    by (rule parse_response_InrE)
  ultimately show ?thesis using coh by (simp add: build_info_frame)
qed

definition sample_externals :: "json \<Rightarrow> externals" where
  "sample_externals tree = plain_externals\<lparr>x_parse_json := (\<lambda>_. Some tree)\<rparr>"

text \<open>
  C33: the detail status is decided by the first status of the payload that holds a mapped phrase,
  with the order of the mapping table inside that status; without such a status it is
  \<open>registered\<close>.
\<close>

theorem parse_response_status:
  assumes "parse_response X body n source = Inr r" and "x_parse_json X body = Some tree"
    and "decode_response tree = Some resp" and "rp_status resp = before @ raw # after"
    and "\<forall>s \<in> set before. \<forall>(p, st) \<in> set status_mapping. \<not> contains (lower X (trim_space s)) p"
    and "status_mapping = ms @ (phrase, st) # ms2" and "contains (lower X (trim_space raw)) phrase"
    and "\<forall>(p, st) \<in> set ms. \<not> contains (lower X (trim_space raw)) p"
  shows "pr_status r = st \<and>
    pr_evidence r = [evidence_tag rdap_name ''registration_exists'',
                     evidence_tag rdap_name (underscored (lower X (trim_space raw)))]"
proof -
  have "match_mapping (lower X (trim_space raw)) (ms @ (phrase, st) # ms2) = Some st"
    using assms(7,8) by (induction ms) auto
  then have "scan_statuses X (rp_status resp) = Some (st, lower X (trim_space raw))"
    unfolding assms(4) using assms(5,6)
    by (intro scan_statuses_first) (auto simp: match_mapping_None)
  moreover from assms(1) obtain t q where "x_parse_json X body = Some t" "decode_response t = Some q"
    "pr_status r = (case scan_statuses X (rp_status q) of None \<Rightarrow> StatusRegistered | Some (st, s) \<Rightarrow> st)"
    "pr_evidence r = evidence_tag rdap_name ''registration_exists'' #
       (case scan_statuses X (rp_status q) of None \<Rightarrow> []
        | Some (st, s) \<Rightarrow> [evidence_tag rdap_name (underscored s)])"
    by (rule parse_response_InrE)
  ultimately show ?thesis using assms(2,3) by simp
qed

theorem parse_response_status_witness:
  "\<exists>r. parse_response (sample_externals (JObj [(''status'', JArr [JStr ''ok'', JStr ''blocked''])])) [] sample_name [] = Inr r \<and>
    pr_status r = StatusBlocked"
proof -
  let ?t = "JObj [(''status'', JArr [JStr ''ok'', JStr ''blocked''])]"
  let ?X = "sample_externals ?t"
  let ?r = "zero_response\<lparr>rp_status := [''ok'', ''blocked'']\<rparr>"
  have dec: "decode_response ?t = Some ?r"
    by (simp add: decode_response_def dec_struct_def response_field_def dec_list_def dec_string_def
        lower_char_def byte_of_def zero_response_def)
  have json: "x_parse_json ?X [] = Some ?t" by (simp add: sample_externals_def)
  obtain r where r: "parse_response ?X [] sample_name [] = Inr r"
    using parse_response_ok [OF json dec] by blast
  have host: "list_all host_char ''ok''" "list_all host_char ''blocked''"
    by (simp_all add: host_char_def byte_of_def)
  have low: "lower ?X (trim_space ''ok'') = ''ok''" "lower ?X (trim_space ''blocked'') = ''blocked''"
    by (simp_all add: trim_space_host [OF host(1)] trim_space_host [OF host(2)] to_lower_def
        is_ascii_def lower_char_def byte_of_def)
  have "pr_status r = StatusBlocked \<and>
    pr_evidence r = [evidence_tag rdap_name ''registration_exists'',
                     evidence_tag rdap_name (underscored (lower ?X (trim_space ''blocked'')))]"
    by (rule parse_response_status [OF r json dec, where before = "[''ok'']" and after = "[]"
          and ms = "butlast status_mapping" and phrase = "''blocked''" and ?ms2.0 = "[]"])
       (simp_all add: low, simp_all add: status_mapping_def contains_def)
  with r show ?thesis by blast
qed

text \<open>
  The registrar is that of the first entity with the registrar role in any letter case: the
  value of its first \<open>fn\<close> property, or its handle when it has none, with its last IANA identifier.
\<close>

lemma find_registrar_first:
  assumes "\<forall>e \<in> set others. \<not> has_role (en_roles e) ''registrar''"
    and "has_role (en_roles e) ''registrar''"
    and "en_vcard e = JStr ''vcard'' # JArr (props @ JArr [JStr key, params, kind, JStr fn] # props2) # tl_card"
    and "\<forall>p \<in> set props. \<forall>k vs. p = JArr (JStr k # vs) \<longrightarrow> \<not> equal_fold k ''fn''"
    and "equal_fold key ''fn''" and "fn \<noteq> []"
    and "en_public_ids e = ids @ \<lparr>pi_type = ty, pi_identifier = ident\<rparr> # ids2"
    and "equal_fold ty ''IANA Registrar ID''"
    and "\<forall>p \<in> set ids2. \<not> equal_fold (pi_type p) ''IANA Registrar ID''"
  shows "find_registrar (others @ e # rest) = (fn, ident)"
proof -
  have skip: "vcard_entries (props @ qs) ''fn'' = vcard_entries qs ''fn''" for qs
    using assms(4) by (induction props) (auto split: json.split list.split)
  have "vcard_value (en_vcard e) ''fn'' = fn"
    using assms(5) by (simp add: vcard_value_def assms(3) skip)
  moreover have "iana_id ids2 acc = acc" for acc
    using assms(9) by (induction ids2 arbitrary: acc) auto
  then have "iana_id (en_public_ids e) acc = ident" for acc
    unfolding assms(7) using assms(8) by (induction ids arbitrary: acc) auto
  moreover have "find_registrar (others @ e # rest) = find_registrar (e # rest)"
    using assms(1) by (induction others) simp_all
  ultimately show ?thesis using assms(2,6) by (simp add: Let_def)
qed

end
