(* ===== verification/RdapBootstrap.thy ===== *)
theory RdapBootstrap
  imports RdapParse
begin

text \<open>
  \<^theory_text>\<open>internal/provider/rdap/bootstrap.go\<close>: the IANA registry of RDAP services, its snapshot in the
  binary and its refresh. Reading the file's publication time uses the RFC 3339 layout of
  \<open>x_parse_time\<close>.
\<close>

section \<open>The registry file\<close>

definition https_scheme :: string where "https_scheme = ''https://''"

definition sort_https_first :: "string list \<Rightarrow> string list" where
  "sort_https_first urls =
     filter (\<lambda>u. has_prefix u https_scheme) urls @ filter (\<lambda>u. \<not> has_prefix u https_scheme) urls"

record bootstrap_file =
  bf_publication :: time
  bf_services :: "string list list list"

definition bootstrap_field :: "externals \<Rightarrow> string \<Rightarrow> json \<Rightarrow> bootstrap_file \<Rightarrow> bootstrap_file option" where
  "bootstrap_field X k v f =
     (if equal_fold k ''publication''
      then (case v of
              JStr s \<Rightarrow> map_option (\<lambda>t. f\<lparr>bf_publication := t\<rparr>) (x_parse_time X ''2006-01-02T15:04:05Z07:00'' s)
            | JNull \<Rightarrow> Some f
            | _ \<Rightarrow> None)
      else if equal_fold k ''services''
      then map_option (\<lambda>ss. f\<lparr>bf_services := ss\<rparr>) (dec_list (dec_list (dec_list (dec_string []))) v)
      else Some f)"

fun clean_urls :: "string list \<Rightarrow> string list" where
  "clean_urls [] = []"
| "clean_urls (u # us) =
     (let t = trim_space u in if t = [] then clean_urls us else trim_suffix t ''/'' # clean_urls us)"

type_synonym services = "string \<rightharpoonup> string list"

fun add_tlds :: "externals \<Rightarrow> string list \<Rightarrow> string list \<Rightarrow> services \<Rightarrow> services" where
  "add_tlds X [] urls m = m"
| "add_tlds X (raw # raws) urls m =
     (let tld = lower X (trim_space raw)
      in add_tlds X raws urls (if tld \<noteq> [] then m(tld \<mapsto> urls) else m))"

definition add_entry :: "externals \<Rightarrow> string list list \<Rightarrow> services \<Rightarrow> services" where
  "add_entry X entry m =
     (case entry of
        tlds # raw_urls # _ \<Rightarrow>
          let urls = clean_urls raw_urls
          in if urls = [] then m else add_tlds X tlds (sort_https_first urls) m
      | _ \<Rightarrow> m)"

fun add_services :: "externals \<Rightarrow> string list list list \<Rightarrow> services \<Rightarrow> services" where
  "add_services X [] m = m"
| "add_services X (entry # entries) m = add_services X entries (add_entry X entry m)"

definition parse_bootstrap :: "externals \<Rightarrow> string \<Rightarrow> go_error + services \<times> time" where
  "parse_bootstrap X data =
     (case x_parse_json X data of
        None \<Rightarrow> Inl (Wrapped ''rdap bootstrap'' (Failure ''json''))
      | Some tree \<Rightarrow>
          (case dec_struct (bootstrap_field X) \<lparr>bf_publication = 0, bf_services = []\<rparr> tree of
             None \<Rightarrow> Inl (Wrapped ''rdap bootstrap'' (Failure ''json''))
           | Some file \<Rightarrow>
               if bf_services file = [] then Inl (Failure ''rdap bootstrap: no services'')
               else Inr (add_services X (bf_services file) Map.empty, bf_publication file)))"

section \<open>The registry in memory\<close>

record bootstrap =
  bs_ttl :: duration
  bs_services :: services
  bs_publication :: time
  bs_fetched_at :: time
  bs_refreshing :: bool

definition new_bootstrap :: "externals \<Rightarrow> string \<Rightarrow> duration \<Rightarrow> bootstrap" where
  "new_bootstrap X embedded ttl =
     (case parse_bootstrap X embedded of
        Inl e \<Rightarrow> \<lparr>bs_ttl = ttl, bs_services = Map.empty, bs_publication = 0, bs_fetched_at = 0,
                  bs_refreshing = False\<rparr>
      | Inr (services, publication) \<Rightarrow>
          \<lparr>bs_ttl = ttl, bs_services = services, bs_publication = publication, bs_fetched_at = 0,
           bs_refreshing = False\<rparr>)"

definition stale :: "bootstrap \<Rightarrow> time \<Rightarrow> bool" where
  "stale b now = (bs_ttl b < time_sub now (bs_fetched_at b))"

definition bootstrap_url :: string where "bootstrap_url = ''https://data.iana.org/rdap/dns.json''"

definition max_bootstrap_bytes :: nat where "max_bootstrap_bytes = 8388608"

definition fetch :: "'w env \<Rightarrow> externals \<Rightarrow> 'w \<Rightarrow> (go_error + services \<times> time) \<times> 'w" where
  "fetch E X w =
     (let (reply, w1) = e_http_get E bootstrap_url (e_with_timeout E (20 * second) w);
          result = (case reply of
              HttpBadRequest \<Rightarrow> Inl (Failure ''request'')
            | HttpFailed \<Rightarrow> Inl (Failure ''http'')
            | HttpReply code retry body \<Rightarrow>
                if code \<noteq> 200 then Inl (Failure ''rdap bootstrap: unexpected status'')
                else (case body of
                        None \<Rightarrow> Inl (Failure ''read'')
                      | Some data \<Rightarrow> parse_bootstrap X (take max_bootstrap_bytes data)))
      in (result, e_cancel E w1))"

text \<open>
  \<open>tryRefresh\<close>: \<open>bs_refreshing\<close> is the state of the mutex; a caller that finds it locked returns.
  The fetch runs between the lock and the unlock, so the flag is as before at the end.
\<close>

definition try_refresh :: "'w env \<Rightarrow> externals \<Rightarrow> bootstrap \<Rightarrow> 'w \<Rightarrow> bootstrap \<times> 'w" where
  "try_refresh E X b w =
     (if bs_refreshing b then (b, w)
      else if \<not> stale b (e_now E w) then (b, w)
      else case fetch E X w of
        (Inl e, w1) \<Rightarrow> (b\<lparr>bs_fetched_at := e_now E w1 - bs_ttl b + minute\<rparr>, w1)
      | (Inr (services, publication), w1) \<Rightarrow>
          (b\<lparr>bs_services := services, bs_publication := publication, bs_fetched_at := e_now E w1\<rparr>, w1))"

definition base_urls :: "'w env \<Rightarrow> externals \<Rightarrow> string \<Rightarrow> bootstrap \<Rightarrow> 'w \<Rightarrow> string list \<times> bootstrap \<times> 'w" where
  "base_urls E X tld b w =
     (let (b1, w1) = (if stale b (e_now E w) then try_refresh E X b w else (b, w))
      in (case bs_services b1 tld of None \<Rightarrow> [] | Some urls \<Rightarrow> urls, b1, w1))"

definition registry_publication :: "bootstrap \<Rightarrow> time" where
  "registry_publication b = bs_publication b"

section \<open>Lemmas\<close>

lemma set_sort_https_first [simp]: "set (sort_https_first urls) = set urls"
  by (auto simp: sort_https_first_def)

lemma clean_urls_trimmed: "u \<in> set (clean_urls us) \<Longrightarrow> \<exists>r \<in> set us. u = trim_suffix (trim_space r) ''/''"
  by (induction us) (auto simp: Let_def split: if_splits)

text \<open>Every list of a registry is a sorted list of addresses, under a key that is not empty.\<close>

definition ordered_urls :: "string list \<Rightarrow> bool" where
  "ordered_urls urls = (urls \<noteq> [] \<and> sort_https_first urls = urls)"

definition good_services :: "services \<Rightarrow> bool" where
  "good_services m = (\<forall>tld urls. m tld = Some urls \<longrightarrow> tld \<noteq> [] \<and> ordered_urls urls)"

lemma sort_https_first_idem: "sort_https_first (sort_https_first urls) = sort_https_first urls"
  by (simp add: sort_https_first_def)

lemma sort_https_first_Nil [simp]: "sort_https_first urls = [] \<longleftrightarrow> urls = []"
  by (metis set_empty set_sort_https_first)

lemma good_services_empty: "good_services Map.empty"
  by (simp add: good_services_def)

lemma good_services_update:
  "good_services m \<Longrightarrow> ordered_urls urls \<Longrightarrow> tld \<noteq> [] \<Longrightarrow> good_services (m(tld \<mapsto> urls))"
  by (simp add: good_services_def)

lemma add_tlds_good: "good_services m \<Longrightarrow> ordered_urls urls \<Longrightarrow> good_services (add_tlds X tlds urls m)"
  by (induction tlds arbitrary: m) (simp_all add: Let_def good_services_update)

lemma add_entry_good: "good_services m \<Longrightarrow> good_services (add_entry X entry m)"
  by (simp add: add_entry_def Let_def add_tlds_good ordered_urls_def sort_https_first_idem split: list.split)

lemma add_services_good: "good_services m \<Longrightarrow> good_services (add_services X entries m)"
  by (induction entries arbitrary: m) (simp_all add: add_entry_good)

lemma parse_bootstrap_good:
  assumes "parse_bootstrap X data = Inr (m, t)"
  shows "good_services m"
proof -
  from assms obtain entries where "m = add_services X entries Map.empty"
    by (auto simp: parse_bootstrap_def split: option.splits if_splits)
  then show ?thesis by (simp add: add_services_good good_services_empty)
qed

lemma fetch_good: "fst (fetch E X w) = Inr (m, t) \<Longrightarrow> good_services m"
  by (auto simp: fetch_def split: prod.splits http_reply.splits option.splits if_splits
      dest: parse_bootstrap_good)

lemma try_refresh_good: "good_services (bs_services b) \<Longrightarrow> good_services (bs_services (fst (try_refresh E X b w)))"
  using fetch_good [of E X w]
  by (auto simp: try_refresh_def split: prod.splits sum.splits)

lemma add_tlds_key:
  "add_tlds X tlds urls m k = (if k \<noteq> [] \<and> (\<exists>t \<in> set tlds. lower X (trim_space t) = k) then Some urls else m k)"
  by (induction tlds arbitrary: m) (auto simp: Let_def)

lemma base_urls_good:
  assumes "good_services (bs_services b)" and "base_urls E X tld b w = (urls, b1, w1)"
  shows "good_services (bs_services b1) \<and> (urls = [] \<or> ordered_urls urls)"
proof -
  have "good_services (bs_services b1)"
    using assms try_refresh_good [OF assms(1), of E X w]
    by (auto simp: base_urls_def split: prod.splits if_splits)
  moreover have "urls = (case bs_services b1 tld of None \<Rightarrow> [] | Some urls \<Rightarrow> urls)"
    using assms(2) by (auto simp: base_urls_def split: prod.splits)
  ultimately show ?thesis by (auto simp: good_services_def split: option.splits)
qed

section \<open>Properties\<close>

text \<open>
  Putting secure addresses first only reorders: the same addresses as often as before, no
  plain address before a secure one, and the order inside each kind kept.
\<close>

lemma sort_https_first_stable:
  "mset (sort_https_first urls) = mset urls \<and>
   sorted_wrt (\<lambda>u v. has_prefix v https_scheme \<longrightarrow> has_prefix u https_scheme) (sort_https_first urls) \<and>
   filter (\<lambda>u. has_prefix u https_scheme) (sort_https_first urls) = filter (\<lambda>u. has_prefix u https_scheme) urls \<and>
   filter (\<lambda>u. \<not> has_prefix u https_scheme) (sort_https_first urls) = filter (\<lambda>u. \<not> has_prefix u https_scheme) urls"
proof -
  let ?p = "\<lambda>u. has_prefix u https_scheme"
  have "sorted_wrt (\<lambda>u v. ?p v \<longrightarrow> ?p u) (filter ?p urls)" for urls
    by (induction urls) auto
  moreover have "sorted_wrt (\<lambda>u v. ?p v \<longrightarrow> ?p u) (filter (\<lambda>u. \<not> ?p u) urls)" for urls
    by (induction urls) auto
  ultimately show ?thesis
    by (simp add: sort_https_first_def sorted_wrt_append multiset_partition [symmetric])
qed

text \<open>
  C34: whatever file was read, and through every later lookup with its refreshes, the registry maps
  no empty TLD, holds no empty list of addresses, and keeps every list with secure addresses first.
\<close>

theorem bootstrap_registry_invariant:
  assumes "good_services (bs_services b)" and "base_urls E X tld b w = (urls, b1, w1)"
  shows "good_services (bs_services b1) \<and> sort_https_first urls = urls \<and>
    good_services (bs_services (new_bootstrap X embedded ttl))"
proof -
  have "good_services (bs_services (new_bootstrap X embedded ttl))"
    by (auto simp: new_bootstrap_def good_services_empty split: sum.split prod.split
        dest: parse_bootstrap_good)
  moreover have "sort_https_first [] = []" by simp
  ultimately show ?thesis using base_urls_good [OF assms] by (auto simp: ordered_urls_def)
qed

theorem bootstrap_registry_invariant_witness:
  "\<exists>b1 w1. base_urls script_env plain_externals ''io'' (new_bootstrap plain_externals [] 5) idle_script = ([], b1, w1) \<and>
    good_services (bs_services b1)"
proof -
  let ?b = "new_bootstrap plain_externals [] 5"
  have b: "bs_services ?b = Map.empty" "stale ?b 0 = False"
    by (simp_all add: new_bootstrap_def parse_bootstrap_def plain_externals_def stale_def time_sub_def)
  then have run: "base_urls script_env plain_externals ''io'' ?b idle_script = ([], ?b, idle_script)"
    by (simp add: base_urls_def idle_script_def)
  have "good_services (bs_services ?b)" using b by (simp add: good_services_empty)
  from bootstrap_registry_invariant [OF this run] run show ?thesis by blast
qed

text \<open>
  C35: a failed refresh keeps every address and makes the registry wait exactly a minute before the
  next attempt; a registry that was not stale is not refreshed at all.
\<close>

theorem failed_refresh_backs_off:
  assumes "fst (fetch E X w) = Inl e" and "try_refresh E X b w = (b1, w1)"
    and "stale b (e_now E w)" and "\<not> bs_refreshing b"
    and "0 \<le> bs_ttl b" and "bs_ttl b \<le> max_int64 - minute"
    and "e_now E w1 \<le> e_now E w2" and "e_now E w2 \<le> e_now E w1 + 2 * minute"
  shows "bs_services b1 = bs_services b \<and> registry_publication b1 = registry_publication b \<and>
    (stale b1 (e_now E w2) \<longleftrightarrow> e_now E w1 + minute < e_now E w2) \<and>
    (e_now E w2 \<le> e_now E w1 + minute \<longrightarrow>
       base_urls E X tld b1 w2 = (case bs_services b tld of None \<Rightarrow> [] | Some urls \<Rightarrow> urls, b1, w2))"
proof -
  from assms(1-4) have b1: "b1 = b\<lparr>bs_fetched_at := e_now E w1 - bs_ttl b + minute\<rparr>"
    by (auto simp: try_refresh_def split: prod.splits sum.splits)
  have stale: "stale b1 (e_now E w2) \<longleftrightarrow> e_now E w1 + minute < e_now E w2"
    unfolding b1 stale_def time_sub_def using assms(5-8) by (simp add: minute_def) linarith
  then have "base_urls E X tld b1 w2 = (case bs_services b tld of None \<Rightarrow> [] | Some urls \<Rightarrow> urls, b1, w2)"
    if "e_now E w2 \<le> e_now E w1 + minute"
    using that by (simp add: base_urls_def b1)
  with b1 stale show ?thesis by (simp add: registry_publication_def)
qed

theorem failed_refresh_backs_off_witness:
  "\<exists>b b1 w1. try_refresh script_env plain_externals b (idle_script\<lparr>sc_now := 25 * hour\<rparr>) = (b1, w1) \<and>
    base_urls script_env plain_externals ''io'' b1 w1 = ([], b1, w1)"
proof -
  let ?w = "idle_script\<lparr>sc_now := 25 * hour\<rparr>"
  let ?b = "\<lparr>bs_ttl = 24 * hour, bs_services = Map.empty, bs_publication = 0, bs_fetched_at = 0,
    bs_refreshing = False\<rparr>"
  have st: "stale ?b (e_now script_env ?w)" by (simp add: stale_def time_sub_def hour_def)
  have f: "fetch script_env plain_externals ?w = (Inl (Failure ''http''), ?w)"
    by (simp add: fetch_def idle_script_def)
  obtain b1 where run: "try_refresh script_env plain_externals ?b ?w = (b1, ?w)"
    using st f by (simp add: try_refresh_def)
  have "base_urls script_env plain_externals ''io'' b1 ?w =
      (case bs_services ?b ''io'' of None \<Rightarrow> [] | Some urls \<Rightarrow> urls, b1, ?w)"
    using failed_refresh_backs_off [of script_env plain_externals ?w "Failure ''http''" ?b b1 ?w ?w "''io''"] f run st
    by (simp add: hour_def minute_def)
  with run show ?thesis by auto
qed

end
