(* ===== verification/RateLimit.thy ===== *)
theory RateLimit
  imports World Complex_Main
begin

text \<open>
  \<^theory_text>\<open>internal/ratelimit/ratelimit.go\<close>: the per-host circuit breaker and the retry delays. The token
  bucket of a host is \<open>e_rate_wait\<close> of the environment; request rates are finite floats, kept as
  rationals.
\<close>

section \<open>The limiter\<close>

record limiter_config =
  lc_rps :: rat
  lc_burst :: int
  lc_failure_threshold :: int
  lc_open_duration :: duration

record host_state =
  hs_failures :: int
  hs_open_until :: time

type_synonym hosts = "string \<rightharpoonup> host_state"

record limiter =
  lim_cfg :: limiter_config
  lim_hosts :: hosts

definition new_host_limiter :: "limiter_config \<Rightarrow> limiter" where
  "new_host_limiter cfg0 =
     (let cfg1 = (if lc_rps cfg0 \<le> 0 then cfg0\<lparr>lc_rps := 5\<rparr> else cfg0);
          cfg2 = (if lc_burst cfg1 \<le> 0 then cfg1\<lparr>lc_burst := \<lfloor>max 1 (lc_rps cfg1)\<rfloor>\<rparr> else cfg1);
          cfg3 = (if lc_failure_threshold cfg2 \<le> 0 then cfg2\<lparr>lc_failure_threshold := 5\<rparr> else cfg2);
          cfg4 = (if lc_open_duration cfg3 \<le> 0 then cfg3\<lparr>lc_open_duration := 30 * second\<rparr> else cfg3)
      in \<lparr>lim_cfg = cfg4, lim_hosts = Map.empty\<rparr>)"

definition fresh_host :: host_state where
  "fresh_host = \<lparr>hs_failures = 0, hs_open_until = 0\<rparr>"

text \<open>\<open>state\<close>: look a host up, creating its entry.\<close>

definition host_entry :: "string \<Rightarrow> hosts \<Rightarrow> host_state \<times> hosts" where
  "host_entry h m =
     (case m h of Some st \<Rightarrow> (st, m) | None \<Rightarrow> (fresh_host, m(h \<mapsto> fresh_host)))"

definition limiter_wait :: "'w env \<Rightarrow> string \<Rightarrow> limiter \<Rightarrow> 'w \<Rightarrow> go_error option \<times> limiter \<times> 'w" where
  "limiter_wait E h l w =
     (let (st, m) = host_entry h (lim_hosts l);
          l1 = l\<lparr>lim_hosts := m\<rparr>
      in if e_now E w < hs_open_until st
         then (Some (ErrCircuitOpen h (hs_open_until st)), l1, w)
         else (case e_rate_wait E h w of
                 (Granted, w1) \<Rightarrow> (None, l1, w1)
               | (RateCancelled, w1) \<Rightarrow> (Some ContextErr, l1, w1)
               | (RateRefused, w1) \<Rightarrow> (Some (Failure ''rate: Wait would exceed context deadline''), l1, w1)))"

definition hosts_success :: "string \<Rightarrow> hosts \<Rightarrow> hosts" where
  "hosts_success h m =
     (let (st, m1) = host_entry h m in m1(h \<mapsto> st\<lparr>hs_failures := 0, hs_open_until := 0\<rparr>))"

definition hosts_failure :: "limiter_config \<Rightarrow> time \<Rightarrow> string \<Rightarrow> hosts \<Rightarrow> hosts" where
  "hosts_failure cfg now h m =
     (let (st, m1) = host_entry h m;
          st1 = st\<lparr>hs_failures := hs_failures st + 1\<rparr>;
          st2 = (if lc_failure_threshold cfg \<le> hs_failures st1
                 then st1\<lparr>hs_open_until := now + lc_open_duration cfg\<rparr> else st1)
      in m1(h \<mapsto> st2))"

definition report_success :: "string \<Rightarrow> limiter \<Rightarrow> limiter" where
  "report_success h l = l\<lparr>lim_hosts := hosts_success h (lim_hosts l)\<rparr>"

definition report_failure :: "'w env \<Rightarrow> string \<Rightarrow> limiter \<Rightarrow> 'w \<Rightarrow> limiter" where
  "report_failure E h l w = l\<lparr>lim_hosts := hosts_failure (lim_cfg l) (e_now E w) h (lim_hosts l)\<rparr>"

section \<open>Retry delays\<close>

text \<open>Go's integer division truncates toward zero.\<close>

definition go_div :: "int \<Rightarrow> int \<Rightarrow> int" where
  "go_div a b = sgn a * sgn b * (\<bar>a\<bar> div \<bar>b\<bar>)"

text \<open>
  \<open>time.Duration(math.Pow(2, float64(n)))\<close>: the power is exact as a float; a float beyond the
  range of int64 converts to the smallest int64 on amd64.
\<close>

definition pow2_duration :: "nat \<Rightarrow> int" where
  "pow2_duration n = (if n < 63 then 2 ^ n else min_int64)"

definition backoff_base :: "nat \<Rightarrow> duration" where
  "backoff_base attempt =
     min (wrap64 (wrap64 (pow2_duration attempt * 500) * millisecond)) (8 * second)"

definition backoff :: "'w env \<Rightarrow> nat \<Rightarrow> duration \<Rightarrow> 'w \<Rightarrow> duration res \<times> 'w" where
  "backoff E attempt retry_after w =
     (if 0 < retry_after then (Ok (min retry_after (30 * second)), w)
      else let half = go_div (backoff_base attempt) 2
      in if half \<le> 0 then (Panic, w)
         else let (jitter, w1) = e_rand E half w in (Ok (half + jitter), w1))"

definition sleep :: "'w env \<Rightarrow> duration \<Rightarrow> 'w \<Rightarrow> go_error option \<times> 'w" where
  "sleep E d w =
     (if d \<le> 0 then (ctx_err E w, w)
      else (case e_timer E d w of (True, w1) \<Rightarrow> (None, w1) | (False, w1) \<Rightarrow> (Some ContextErr, w1)))"

section \<open>The circuit breaker as an interface\<close>

text \<open>
  What a client of the limiter relies on: consecutive failures are counted per host, a success
  clears the count and the block, and the failure that reaches the threshold blocks the host for
  the hold time, without touching other hosts.
\<close>

locale circuit_breaker =
  fixes failures :: "'s \<Rightarrow> string \<Rightarrow> int"
    and blocked :: "'s \<Rightarrow> string \<Rightarrow> time \<Rightarrow> bool"
    and good :: "string \<Rightarrow> 's \<Rightarrow> 's"
    and bad :: "time \<Rightarrow> string \<Rightarrow> 's \<Rightarrow> 's"
    and threshold :: int
    and hold :: duration
  assumes failures_good: "failures (good h s) k = (if k = h then 0 else failures s k)"
    and failures_bad: "failures (bad t h s) k = (if k = h then failures s h + 1 else failures s k)"
    and blocked_good: "0 \<le> u \<Longrightarrow> blocked (good h s) k u = (k \<noteq> h \<and> blocked s k u)"
    and blocked_bad: "blocked (bad t h s) k u =
      (if k = h \<and> threshold \<le> failures s h + 1 then u < t + hold else blocked s k u)"
begin

text \<open>A burst of failures of one host, at the given times.\<close>

lemma failures_burst: "failures (fold (\<lambda>t. bad t h) ts s) h = failures s h + int (length ts)"
  by (induction ts arbitrary: s) (simp_all add: failures_bad)

lemma failures_burst_other: "k \<noteq> h \<Longrightarrow> failures (fold (\<lambda>t. bad t h) ts s) k = failures s k"
  by (induction ts arbitrary: s) (simp_all add: failures_bad)

lemma blocked_burst_other: "k \<noteq> h \<Longrightarrow> blocked (fold (\<lambda>t. bad t h) ts s) k u = blocked s k u"
  by (induction ts arbitrary: s) (simp_all add: blocked_bad)

lemma blocked_burst_below:
  "failures s h + int (length ts) < threshold \<Longrightarrow>
   blocked (fold (\<lambda>t. bad t h) ts s) h u = blocked s h u"
  by (induction ts arbitrary: s) (simp_all add: blocked_bad failures_bad)

lemma blocked_burst_reached:
  assumes "threshold \<le> failures s h + int (length ts) + 1"
  shows "blocked (fold (\<lambda>t. bad t h) (ts @ [t]) s) h u = (u < t + hold)"
  using assms by (simp add: blocked_bad failures_burst)

text \<open>After a success, a block needs as many failures as the threshold says.\<close>

lemma burst_after_good:
  assumes "0 \<le> u"
  shows "blocked (fold (\<lambda>t. bad t h) (ts @ [t]) (good h s)) h u =
    (threshold \<le> int (length ts) + 1 \<and> u < t + hold)"
proof (cases "threshold \<le> int (length ts) + 1")
  case True
  then show ?thesis
    using blocked_burst_reached [of "good h s" h ts t u] by (simp add: failures_good)
next
  case False
  then have "blocked (fold (\<lambda>t. bad t h) (ts @ [t]) (good h s)) h u = blocked (good h s) h u"
    by (intro blocked_burst_below) (simp add: failures_good)
  with False assms show ?thesis by (simp add: blocked_good)
qed

end

definition host_failures :: "hosts \<Rightarrow> string \<Rightarrow> int" where
  "host_failures m h = (case m h of None \<Rightarrow> 0 | Some st \<Rightarrow> hs_failures st)"

definition host_blocked :: "hosts \<Rightarrow> string \<Rightarrow> time \<Rightarrow> bool" where
  "host_blocked m h now = (now < (case m h of None \<Rightarrow> 0 | Some st \<Rightarrow> hs_open_until st))"

lemmas limiter_defs = host_failures_def host_blocked_def hosts_success_def hosts_failure_def
  host_entry_def fresh_host_def

interpretation breaker: circuit_breaker host_failures host_blocked hosts_success
    "hosts_failure cfg" "lc_failure_threshold cfg" "lc_open_duration cfg" for cfg
  by unfold_locales (auto simp: limiter_defs Let_def split: option.splits)

lemma limiter_wait_open:
  "(\<exists>u. fst (limiter_wait E h l w) = Some (ErrCircuitOpen h u)) \<longleftrightarrow>
   host_blocked (lim_hosts l) h (e_now E w)"
  by (auto simp: limiter_wait_def host_entry_def fresh_host_def host_blocked_def Let_def
      split: option.splits prod.splits rate_outcome.splits)

lemma limiter_wait_as_open:
  "fst (limiter_wait E h l w) = Some e \<Longrightarrow> as_circuit_open e \<longleftrightarrow> host_blocked (lim_hosts l) h (e_now E w)"
  by (auto simp: limiter_wait_def host_entry_def fresh_host_def host_blocked_def Let_def
      split: option.splits prod.splits rate_outcome.splits if_splits)

lemma limiter_wait_not_limited: "fst (limiter_wait E h l w) = Some e \<Longrightarrow> \<not> as_rate_limited e"
  by (auto simp: limiter_wait_def Let_def split: prod.splits rate_outcome.splits if_splits)

text \<open>Two limiters that tell the same of every host, whatever entries they have.\<close>

definition same_hosts :: "limiter \<Rightarrow> limiter \<Rightarrow> bool" where
  "same_hosts l l1 = (lim_cfg l1 = lim_cfg l \<and>
     (\<forall>h. host_failures (lim_hosts l1) h = host_failures (lim_hosts l) h) \<and>
     (\<forall>h t. host_blocked (lim_hosts l1) h t = host_blocked (lim_hosts l) h t \<or> t < 0))"

lemma same_hosts_refl: "same_hosts l l"
  by (simp add: same_hosts_def)

lemma same_hosts_trans: "same_hosts l l1 \<Longrightarrow> same_hosts l1 l2 \<Longrightarrow> same_hosts l l2"
  unfolding same_hosts_def by metis

lemma limiter_wait_granted:
  assumes "\<not> host_blocked (lim_hosts l) h (e_now E w)" and "e_rate_wait E h w = (Granted, w1)"
  shows "\<exists>l1. limiter_wait E h l w = (None, l1, w1) \<and> same_hosts l l1"
  using assms by (auto simp: limiter_wait_def limiter_defs host_entry_def fresh_host_def same_hosts_def Let_def split: option.splits)

lemma limiter_wait_blocked:
  assumes "host_blocked (lim_hosts l) h (e_now E w)"
  shows "\<exists>u l1. limiter_wait E h l w = (Some (ErrCircuitOpen h u), l1, w) \<and> same_hosts l l1"
  using assms by (auto simp: limiter_wait_def limiter_defs host_entry_def fresh_host_def same_hosts_def Let_def split: option.splits)

text \<open>The loop of failures as the limiter runs it.\<close>

definition fail_at :: "limiter_config \<Rightarrow> string \<Rightarrow> time list \<Rightarrow> hosts \<Rightarrow> hosts" where
  "fail_at cfg h ts m = fold (\<lambda>t. hosts_failure cfg t h) ts m"

section \<open>Delays\<close>

lemma pow2_wrap_small:
  assumes "n \<le> 34"
  shows "wrap64 (wrap64 (pow2_duration n * 500) * millisecond) = 2 ^ n * 500000000"
proof -
  let ?p = "(2::int) ^ n"
  have "?p \<le> 2 ^ 34" using assms by (intro power_increasing) simp_all
  then have le: "?p \<le> 17179869184" by simp
  have pos: "0 \<le> ?p" by simp
  have "wrap64 (?p * 500) = ?p * 500" using le pos by (intro wrap64_id) linarith+
  moreover have "wrap64 (?p * 500 * 1000000) = ?p * 500000000"
    using le pos by (subst wrap64_id) linarith+
  ultimately show ?thesis using assms by (simp add: pow2_duration_def millisecond_def)
qed

lemma backoff_base_small: "n \<le> 34 \<Longrightarrow> backoff_base n = min (2 ^ n * 500 * millisecond) (8 * second)"
  unfolding backoff_base_def by (simp only: pow2_wrap_small) (simp add: const_defs)

lemma backoff_base_range: "n \<le> 34 \<Longrightarrow> 500 * millisecond \<le> backoff_base n \<and> backoff_base n \<le> 8 * second"
  by (simp add: backoff_base_small) (simp add: const_defs)

lemma backoff_no_panic:
  assumes "n \<le> 34 \<or> 0 < ra"
  shows "\<not> is_panic (fst (backoff E n ra w))"
proof (cases "0 < ra")
  case False
  then have "500 * millisecond \<le> backoff_base n" using assms backoff_base_range by blast
  then have "0 < go_div (backoff_base n) 2" by (simp add: go_div_def const_defs)
  with False show ?thesis by (auto simp: backoff_def Let_def split: prod.splits)
qed (simp add: backoff_def)

text \<open>From the 56th doubling on, the product is a multiple of \<open>2 ^ 64\<close>.\<close>

lemma backoff_base_vanishes:
  assumes "56 \<le> n"
  shows "backoff_base n = 0"
proof -
  have zero: "wrap64 (wrap64 x * millisecond) = 0" if "x = 2 ^ 58 * k" for x k :: int
  proof -
    obtain q where q: "wrap64 x = x - 2 ^ 64 * q"
    proof
      show "wrap64 x = x - 2 ^ 64 * ((x + 2 ^ 63) div 2 ^ 64)"
        by (simp add: wrap64_def minus_mod_eq_mult_div [symmetric])
    qed
    have "wrap64 x * millisecond = 2 ^ 64 * (15625 * k - 1000000 * q)"
      unfolding q millisecond_def by (simp add: that algebra_simps)
    then show ?thesis by (simp only: wrap64_multiple)
  qed
  have "\<exists>k. pow2_duration n * 500 = 2 ^ 58 * k"
  proof (cases "n < 63")
    case True
    then have "(2::int) ^ n = 2 ^ 56 * 2 ^ (n - 56)"
      using assms by (metis le_add_diff_inverse power_add)
    then have "pow2_duration n * 500 = 2 ^ 58 * (125 * 2 ^ (n - 56))"
      using True by (simp add: pow2_duration_def)
    then show ?thesis ..
  next
    case False
    then have "pow2_duration n * 500 = 2 ^ 58 * (- 16000)" by (simp add: pow2_duration_def)
    then show ?thesis ..
  qed
  then show ?thesis unfolding backoff_base_def by (auto simp: zero second_def)
qed

section \<open>Properties\<close>

text \<open>
  C21: after a success of a host, a burst of failures makes \<open>Wait\<close> refuse the host exactly when
  the burst reached the threshold and the hold time since its last failure has not passed.
\<close>

theorem circuit_opens_at_threshold:
  assumes "0 \<le> e_now E w" and "lim_hosts l = fail_at (lim_cfg l) h (ts @ [t]) (hosts_success h m)"
  shows "(\<exists>u. fst (limiter_wait E h l w) = Some (ErrCircuitOpen h u)) \<longleftrightarrow>
    lc_failure_threshold (lim_cfg l) \<le> int (length ts) + 1 \<and>
    e_now E w < t + lc_open_duration (lim_cfg l)"
  using assms breaker.burst_after_good [of "e_now E w" "lim_cfg l" h ts t m]
  by (simp add: limiter_wait_open fail_at_def)

theorem circuit_opens_at_threshold_witness:
  "\<exists>l. \<exists>u. fst (limiter_wait script_env ''h'' l idle_script) = Some (ErrCircuitOpen ''h'' u)"
proof -
  let ?cfg = "\<lparr>lc_rps = 1, lc_burst = 1, lc_failure_threshold = 2, lc_open_duration = 10\<rparr>"
  let ?l = "\<lparr>lim_cfg = ?cfg, lim_hosts = fail_at ?cfg ''h'' ([3] @ [4]) (hosts_success ''h'' Map.empty)\<rparr>"
  have "(\<exists>u. fst (limiter_wait script_env ''h'' ?l idle_script) = Some (ErrCircuitOpen ''h'' u)) \<longleftrightarrow>
      lc_failure_threshold (lim_cfg ?l) \<le> int (length [3::int]) + 1 \<and>
      e_now script_env idle_script < 4 + lc_open_duration (lim_cfg ?l)"
    by (rule circuit_opens_at_threshold) (simp_all add: idle_script_def)
  then show ?thesis by (auto simp: idle_script_def)
qed

text \<open>The failures of one host never change whether another host is blocked.\<close>

lemma hosts_isolated:
  assumes "k \<noteq> h"
  shows "host_blocked (fail_at cfg h ts m) k now = host_blocked m k now \<and>
    host_failures (fail_at cfg h ts m) k = host_failures m k"
  using breaker.blocked_burst_other [OF assms] breaker.failures_burst_other [OF assms]
  by (simp add: fail_at_def)

text \<open>The constructor leaves no field of the configuration at or below zero.\<close>

lemma new_host_limiter_config:
  "0 < lc_rps (lim_cfg (new_host_limiter cfg)) \<and> 1 \<le> lc_burst (lim_cfg (new_host_limiter cfg)) \<and>
   1 \<le> lc_failure_threshold (lim_cfg (new_host_limiter cfg)) \<and>
   0 < lc_open_duration (lim_cfg (new_host_limiter cfg)) \<and>
   host_failures (lim_hosts (new_host_limiter cfg)) h = 0"
proof -
  have "(1::int) \<le> \<lfloor>max 1 (r :: rat)\<rfloor>" for r by (simp add: le_floor_iff)
  then show ?thesis
    by (simp add: new_host_limiter_def Let_def second_def host_failures_def)
qed

text \<open>
  C24: without a \<open>Retry-After\<close> hint, the delay before retry \<open>n\<close> (\<open>n\<close> at most 34) lies between half of
  \<open>min (2 ^ n * 500 ms) (8 s)\<close> and that value; with a hint it is the hint, at most 30 seconds.
\<close>

theorem backoff_delay:
  assumes "rand_contract E" and "n \<le> 34"
  shows "\<exists>d w1. backoff E n ra w = (Ok d, w1) \<and>
    (if 0 < ra then d = min ra (30 * second)
     else 250 * millisecond \<le> d \<and> backoff_base n \<le> 2 * d + 1 \<and> d < backoff_base n \<and>
          backoff_base n = min (2 ^ n * 500 * millisecond) (8 * second))"
proof (cases "0 < ra")
  case True
  then show ?thesis by (simp add: backoff_def)
next
  case False
  let ?b = "backoff_base n"
  from backoff_base_range [OF assms(2)] have b: "500 * millisecond \<le> ?b" by simp
  then have half: "go_div ?b 2 = ?b div 2" by (simp add: go_div_def const_defs)
  have pos: "0 < ?b div 2" using b by (simp add: const_defs)
  obtain j w1 where j: "e_rand E (?b div 2) w = (j, w1)" by fastforce
  with assms(1) pos have "0 \<le> j" "j < ?b div 2"
    by (auto simp: rand_contract_def) (metis fst_conv)+
  moreover have "backoff E n ra w = (Ok (?b div 2 + j), w1)"
    using False pos j by (simp add: backoff_def half Let_def)
  moreover have "250 * millisecond \<le> ?b div 2 + j" "?b \<le> 2 * (?b div 2 + j) + 1" "?b div 2 + j < ?b"
    using b \<open>0 \<le> j\<close> \<open>j < ?b div 2\<close> by (simp_all add: const_defs)
  ultimately show ?thesis using False backoff_base_small [OF assms(2)] by auto
qed

theorem backoff_delay_witness:
  "\<exists>d w1. backoff script_env 3 0 idle_script = (Ok d, w1) \<and> 250 * millisecond \<le> d"
  using backoff_delay [OF script_rand_contract, of 3 0 idle_script] by auto

text \<open>
  C25: the shift of the exponential delay overflows: at attempt 35, and at every attempt from 56
  on, the base delay is not positive and drawing the jitter panics.
\<close>

theorem backoff_overflow_panics:
  assumes "n = 35 \<or> 56 \<le> n" and "ra \<le> 0"
  shows "backoff E n ra w = (Panic, w)"
proof -
  have "backoff_base n \<le> 0"
  proof (cases "n = 35")
    case True
    then show ?thesis by (simp add: backoff_base_def pow2_duration_def wrap64_def millisecond_def)
  next
    case False
    with assms(1) show ?thesis by (simp add: backoff_base_vanishes)
  qed
  then have "go_div (backoff_base n) 2 \<le> 0"
    by (cases "backoff_base n = 0") (simp_all add: go_div_def sgn_if)
  with assms(2) show ?thesis by (simp add: backoff_def)
qed

theorem backoff_overflow_panics_witness: "backoff script_env 60 0 idle_script = (Panic, idle_script)"
  by (rule backoff_overflow_panics) simp_all

end
