(* ===== verification/RdapClient.thy ===== *)
theory RdapClient
  imports RdapBootstrap RateLimit
begin

text \<open>
  \<^theory_text>\<open>internal/provider/rdap/rdap.go\<close>: one request, the retry loop of one base address, and the
  source built on them. Requests, tokens, timers and the context are those of the environment.
\<close>

definition max_body_bytes :: nat where "max_body_bytes = 2097152"

definition host_of :: "externals \<Rightarrow> string \<Rightarrow> string" where
  "host_of X base = (case x_url_host X base of None \<Rightarrow> base | Some h \<Rightarrow> h)"

definition parse_retry_after :: "externals \<Rightarrow> time \<Rightarrow> string \<Rightarrow> duration" where
  "parse_retry_after X now value0 =
     (let value = trim_space value0;
          dated = (case x_parse_http_time X value of
                     Some t \<Rightarrow> let d = time_sub t now in if 0 < d then d else 0
                   | None \<Rightarrow> 0)
      in if value = [] then 0
         else case atoi value of
           Some secs \<Rightarrow> if 0 \<le> secs then wrap64 (secs * second) else dated
         | None \<Rightarrow> dated)"

text \<open>\<open>do\<close>: the result, the delay the server asked for, and the world.\<close>

definition rdap_do ::
  "'w env \<Rightarrow> externals \<Rightarrow> string \<Rightarrow> string \<Rightarrow> name \<Rightarrow> 'w \<Rightarrow>
   (go_error + provider_result) \<times> duration \<times> 'w" where
  "rdap_do E X endpoint host n w =
     (case e_http_get E endpoint w of
        (HttpBadRequest, w1) \<Rightarrow> (Inl (Failure ''request''), 0, w1)
      | (HttpFailed, w1) \<Rightarrow> (Inl (RetryableError (Failure ''http'')), 0, w1)
      | (HttpReply code retry body, w1) \<Rightarrow>
          if code = 200
          then (case body of
                  None \<Rightarrow> (Inl (RetryableError (Failure ''read'')), 0, w1)
                | Some data \<Rightarrow> (parse_response X (take max_body_bytes data) n endpoint, 0, w1))
          else if code = 404
          then (Inr (zero_result\<lparr>pr_provider := rdap_name, pr_registration := RegistrationNotRegistered,
                       pr_status := StatusAvailable,
                       pr_evidence := [evidence_tag rdap_name ''no_registration''],
                       pr_source := endpoint\<rparr>), 0, w1)
          else if code \<in> {429, 503, 502, 504}
          then let ra = parse_retry_after X (e_now E w1) retry
               in (Inl (RetryableError (ErrRateLimited host code ra)), ra, w1)
          else (Inl (Failure ''rdap: status''), 0, w1))"

text \<open>
  The retry loop of \<open>query\<close> from an attempt on; \<open>prev\<close> is \<open>lastErr\<close>. When the loop ends without a
  request (a negative number of retries) the code returns a zero result and no error.
\<close>

function rdap_loop ::
  "'w env \<Rightarrow> externals \<Rightarrow> int \<Rightarrow> string \<Rightarrow> string \<Rightarrow> name \<Rightarrow> nat \<Rightarrow> go_error option \<Rightarrow>
   limiter \<times> 'w \<Rightarrow> provider_result res \<times> limiter \<times> 'w" where
  "rdap_loop E X retries endpoint host n attempt prev s =
     (if retries < int attempt
      then (case prev of None \<Rightarrow> (Ok zero_result, s) | Some e \<Rightarrow> (Err e, s))
      else let (l, w) = s
      in case limiter_wait E host l w of
        (Some e, l1, w1) \<Rightarrow> (Err e, l1, w1)
      | (None, l1, w1) \<Rightarrow>
          (case rdap_do E X endpoint host n w1 of
             (Inr r, ra, w2) \<Rightarrow> (Ok r, report_success host l1, w2)
           | (Inl e, ra, w2) \<Rightarrow>
               if \<not> as_retryable e \<or> int attempt = retries \<or> e_ctx_done E w2
               then (Err e, report_failure E host l1 w2, w2)
               else (case backoff E attempt ra w2 of
                       (Panic, w3) \<Rightarrow> (Panic, l1, w3)
                     | (Err e2, w3) \<Rightarrow> (Err e2, l1, w3)
                     | (Ok d, w3) \<Rightarrow>
                         (case sleep E d w3 of
                            (Some e2, w4) \<Rightarrow> (Err e2, l1, w4)
                          | (None, w4) \<Rightarrow>
                              rdap_loop E X retries endpoint host n (Suc attempt) (Some e) (l1, w4)))))"
  by pat_completeness auto
termination
  by (relation "measure (\<lambda>(E, X, retries, endpoint, host, n, attempt, prev, s). nat (retries + 1 - int attempt))") auto

declare rdap_loop.simps [simp del]

definition rdap_query ::
  "'w env \<Rightarrow> externals \<Rightarrow> int \<Rightarrow> string \<Rightarrow> name \<Rightarrow> limiter \<times> 'w \<Rightarrow> provider_result res \<times> limiter \<times> 'w" where
  "rdap_query E X retries base n s =
     (case x_join_path X base [''domain'', n_ascii n] of
        None \<Rightarrow> (Err (Wrapped ''rdap: bad base'' (Failure base)), s)
      | Some endpoint \<Rightarrow> rdap_loop E X retries endpoint (host_of X base) n 0 None s)"

text \<open>What \<open>Check\<close> returns after the last base address failed.\<close>

definition rdap_failed :: "'w env \<Rightarrow> time \<Rightarrow> go_error \<Rightarrow> 'w \<Rightarrow> provider_result res" where
  "rdap_failed E started e w =
     (if as_rate_limited e
      then Ok (zero_result\<lparr>pr_provider := rdap_name, pr_registration := RegistrationUnknown,
                 pr_status := StatusRateLimited,
                 pr_evidence := [evidence_tag rdap_name ''rate_limited''],
                 pr_latency_ms := milliseconds (time_sub (e_now E w) started), pr_error := Some e\<rparr>)
      else Err e)"

text \<open>The loop over the base addresses; it is entered with at least one.\<close>

fun rdap_bases ::
  "'w env \<Rightarrow> externals \<Rightarrow> int \<Rightarrow> time \<Rightarrow> string list \<Rightarrow> name \<Rightarrow> go_error \<Rightarrow>
   limiter \<times> 'w \<Rightarrow> provider_result res \<times> limiter \<times> 'w" where
  "rdap_bases E X retries started [] n prev s = (rdap_failed E started prev (snd s), s)"
| "rdap_bases E X retries started (base # bases) n prev s =
     (case rdap_query E X retries base n s of
        (Ok r, l1, w1) \<Rightarrow> (Ok (r\<lparr>pr_latency_ms := milliseconds (time_sub (e_now E w1) started)\<rparr>), l1, w1)
      | (Panic, s1) \<Rightarrow> (Panic, s1)
      | (Err e, l1, w1) \<Rightarrow>
          if e_ctx_done E w1 then (rdap_failed E started e w1, l1, w1)
          else rdap_bases E X retries started bases n e (l1, w1))"

record rdap_state =
  rd_bootstrap :: bootstrap
  rd_limiter :: limiter

definition rdap_supports ::
  "'w env \<Rightarrow> externals \<Rightarrow> name \<Rightarrow> rdap_state \<times> 'w \<Rightarrow> bool \<times> rdap_state \<times> 'w" where
  "rdap_supports E X n s =
     (let (st, w) = s; (urls, b, w1) = base_urls E X (n_tld n) (rd_bootstrap st) w
      in (urls \<noteq> [], st\<lparr>rd_bootstrap := b\<rparr>, w1))"

definition rdap_check ::
  "'w env \<Rightarrow> externals \<Rightarrow> int \<Rightarrow> name \<Rightarrow> rdap_state \<times> 'w \<Rightarrow> provider_result res \<times> rdap_state \<times> 'w" where
  "rdap_check E X retries n s =
     (let (st, w) = s; (urls, b, w1) = base_urls E X (n_tld n) (rd_bootstrap st) w;
          st1 = st\<lparr>rd_bootstrap := b\<rparr>
      in if urls = [] then (Err (Failure ''rdap: no service''), st1, w1)
         else let (r, l, w2) =
                    rdap_bases E X retries (e_now E w1) urls n (Failure []) (rd_limiter st1, w1)
              in (r, st1\<lparr>rd_limiter := l\<rparr>, w2))"

section \<open>Lemmas\<close>

text \<open>
  A property of successful results that holds of every answer of \<open>do\<close> holds of every answer of the
  loops: the rule behind the lemmas below.
\<close>

lemma rdap_loop_result:
  assumes "\<And>w r ra w1. rdap_do E X endpoint host n w = (Inr r, ra, w1) \<Longrightarrow> Q r"
    and "retries < int attempt \<Longrightarrow> prev = None \<Longrightarrow> Q zero_result"
    and "fst (rdap_loop E X retries endpoint host n attempt prev s) = Ok r"
  shows "Q r"
  using assms
proof (induction E X retries endpoint host n attempt prev s rule: rdap_loop.induct)
  case (1 E X retries endpoint host n attempt prev s)
  show ?case
  proof (cases "retries < int attempt")
    case True
    with "1.prems" show ?thesis by (auto simp: rdap_loop.simps [of E X retries] split: option.splits)
  next
    case False
    from "1.prems"(3) False show ?thesis
      apply (subst (asm) rdap_loop.simps)
      apply (auto split: prod.splits option.splits sum.splits res.splits if_splits dest: "1.prems"(1) "1.IH")
      done
  qed
qed

lemma rdap_do_coherent: "rdap_do E X endpoint host n w = (Inr r, ra, w1) \<Longrightarrow> coherent rdap_name r"
  by (auto simp: rdap_do_def coherent_def Let_def split: prod.splits http_reply.splits option.splits if_splits
      dest!: parse_response_coherent(1))

lemma rdap_do_not_registered:
  assumes "rdap_do E X endpoint host n w = (Inr r, ra, w1)" and "pr_registration r = RegistrationNotRegistered"
  shows "\<exists>retry body. fst (e_http_get E endpoint w) = HttpReply 404 retry body"
  using assms
  by (auto simp: rdap_do_def Let_def split: prod.splits http_reply.splits option.splits if_splits
      dest!: parse_response_coherent(2))

text \<open>The same rule for the whole check: the answer is that of one request, with its latency.\<close>

lemma rdap_query_result:
  assumes "\<And>endpoint host w r ra w1. rdap_do E X endpoint host n w = (Inr r, ra, w1) \<Longrightarrow>
      x_join_path X base [''domain'', n_ascii n] = Some endpoint \<Longrightarrow> Q r"
    and "retries < 0 \<Longrightarrow> Q zero_result"
    and "fst (rdap_query E X retries base n s) = Ok r"
  shows "Q r"
  using assms(3)
  by (auto simp: rdap_query_def split: option.splits intro: assms(1,2) elim!: rdap_loop_result [rotated 2])

lemma rdap_bases_result:
  assumes "\<And>base endpoint host w r ra w1 l. base \<in> set bases \<Longrightarrow>
      rdap_do E X endpoint host n w = (Inr r, ra, w1) \<Longrightarrow>
      x_join_path X base [''domain'', n_ascii n] = Some endpoint \<Longrightarrow> Q (r\<lparr>pr_latency_ms := l\<rparr>)"
    and "\<And>l. retries < 0 \<Longrightarrow> Q (zero_result\<lparr>pr_latency_ms := l\<rparr>)"
    and "\<And>e w. as_rate_limited e \<Longrightarrow> rdap_failed E started e w = Ok r \<Longrightarrow> Q r"
    and "fst (rdap_bases E X retries started bases n prev s) = Ok r"
  shows "Q r"
  using assms
proof (induction bases arbitrary: prev s)
  case Nil
  then show ?case by (auto simp: rdap_failed_def split: if_splits)
next
  case (Cons base bases)
  have tail: "Q r" if "fst (rdap_bases E X retries started bases n e s1) = Ok r" for e s1
    using Cons.IH [OF _ _ _ that] Cons.prems(1-3) by (meson list.set_intros(2))
  have head: "\<forall>l. Q (q\<lparr>pr_latency_ms := l\<rparr>)" if "fst (rdap_query E X retries base n s) = Ok q" for q
  proof (rule rdap_query_result [where Q = "\<lambda>q. \<forall>l. Q (q\<lparr>pr_latency_ms := l\<rparr>)", OF _ _ that])
    fix endpoint host w r ra w1
    assume "rdap_do E X endpoint host n w = (Inr r, ra, w1)"
      and "x_join_path X base [''domain'', n_ascii n] = Some endpoint"
    then show "\<forall>l. Q (r\<lparr>pr_latency_ms := l\<rparr>)" by (intro allI Cons.prems(1) [of base]) simp_all
  qed (simp add: Cons.prems(2))
  obtain q l1 w1 where q: "rdap_query E X retries base n s = (q, l1, w1)" by (metis prod_cases3)
  show ?case
  proof (cases q)
    case (Ok r1)
    with q Cons.prems(4) head show ?thesis by auto
  next
    case (Err e)
    show ?thesis
    proof (cases "e_ctx_done E w1")
      case True
      with q Err Cons.prems(4) have "rdap_failed E started e w1 = Ok r" by simp
      moreover from this have "as_rate_limited e" by (auto simp: rdap_failed_def split: if_splits)
      ultimately show ?thesis using Cons.prems(3) by blast
    next
      case False
      with q Err Cons.prems(4) show ?thesis by (intro tail) simp
    qed
  next
    case Panic
    with q Cons.prems(4) show ?thesis by simp
  qed
qed

lemma rdap_check_bases:
  assumes "fst (rdap_check E X retries n s) = Ok r"
  obtains urls b w1 where "base_urls E X (n_tld n) (rd_bootstrap (fst s)) (snd s) = (urls, b, w1)"
    and "fst (rdap_bases E X retries (e_now E w1) urls n (Failure []) (rd_limiter (fst s), w1)) = Ok r"
  using assms by (auto simp: rdap_check_def Let_def split: prod.splits if_splits)

lemma rdap_failed_coherent: "rdap_failed E started e w = Ok r \<Longrightarrow> coherent rdap_name r"
  by (auto simp: rdap_failed_def coherent_def split: if_splits)

lemma rdap_check_coherent: "fst (rdap_check E X retries n s) = Ok r \<Longrightarrow> coherent rdap_name r"
  by (erule rdap_check_bases, rule rdap_bases_result [where Q = "coherent rdap_name"])
     (auto dest: rdap_do_coherent rdap_failed_coherent)

interpretation rdap: source_contract rdap_name "rdap_check E X retries" True for E X retries
  by unfold_locales (auto dest: rdap_check_coherent)

section \<open>Retries\<close>

lemma rdap_loop_no_panic:
  "retries \<le> 35 \<Longrightarrow> \<not> is_panic (fst (rdap_loop E X retries endpoint host n attempt prev s))"
proof (induction E X retries endpoint host n attempt prev s rule: rdap_loop.induct)
  case (1 E X retries endpoint host n attempt prev s)
  have stop: "int attempt = retries \<or> retries < int attempt" if "backoff E attempt ra w = (Panic, w1)" for ra w w1
    using backoff_no_panic [of attempt ra E w] that "1.prems"
    by (cases "attempt \<le> 34") (simp, linarith)
  from "1.IH" "1.prems" show ?case
    by (subst rdap_loop.simps) (auto split: prod.split option.split sum.split res.split dest: stop)
qed

lemma rdap_query_no_panic: "retries \<le> 35 \<Longrightarrow> \<not> is_panic (fst (rdap_query E X retries base n s))"
  by (simp add: rdap_query_def rdap_loop_no_panic split: option.split)

lemma rdap_bases_no_panic:
  "retries \<le> 35 \<Longrightarrow> \<not> is_panic (fst (rdap_bases E X retries started bases n prev s))"
proof (induction bases arbitrary: prev s)
  case Nil
  then show ?case by (simp add: rdap_failed_def)
next
  case (Cons base bases)
  with rdap_query_no_panic [of retries E X base n s] show ?case
    by (auto simp: rdap_failed_def split: prod.split res.split)
qed

lemma rdap_check_not_panic: "retries \<le> 35 \<Longrightarrow> fst (rdap_check E X retries n s) \<noteq> Panic"
  using rdap_bases_no_panic [of retries E X]
  by (auto simp: rdap_check_def Let_def split: prod.split) (metis fst_conv is_panic_simps(1))

text \<open>The environment that also counts the HTTP requests.\<close>

definition counted :: "'w env \<Rightarrow> ('w \<times> nat) env" where
  "counted E =
     \<lparr>e_now = (\<lambda>(w, k). e_now E w), e_ctx_done = (\<lambda>(w, k). e_ctx_done E w),
      e_rate_wait = (\<lambda>h (w, k). let (r, w1) = e_rate_wait E h w in (r, w1, k)),
      e_rand = (\<lambda>m (w, k). let (r, w1) = e_rand E m w in (r, w1, k)),
      e_timer = (\<lambda>d (w, k). let (r, w1) = e_timer E d w in (r, w1, k)),
      e_acquire_slot = (\<lambda>(w, k). let (r, w1) = e_acquire_slot E w in (r, w1, k)),
      e_release_slot = (\<lambda>(w, k). (e_release_slot E w, k)),
      e_with_timeout = (\<lambda>d (w, k). (e_with_timeout E d w, k)), e_cancel = (\<lambda>(w, k). (e_cancel E w, k)),
      e_http_get = (\<lambda>u (w, k). let (r, w1) = e_http_get E u w in (r, w1, Suc k)),
      e_whois = (\<lambda>s q (w, k). let (r, w1) = e_whois E s q w in (r, w1, k)),
      e_lookup_ns = (\<lambda>m (w, k). let (r, w1) = e_lookup_ns E m w in (r, w1, k))\<rparr>"

lemma counted_rdap_do:
  "rdap_do (counted E) X endpoint host n wk = (r, ra, wk1) \<Longrightarrow> snd wk1 = Suc (snd wk)"
  by (auto simp: rdap_do_def counted_def Let_def split: prod.splits http_reply.splits option.splits if_splits)

lemma counted_backoff: "backoff (counted E) a ra wk = (d, wk1) \<Longrightarrow> snd wk1 = snd wk"
  by (auto simp: backoff_def counted_def Let_def split: prod.splits if_splits)

lemma counted_sleep: "sleep (counted E) d wk = (e, wk1) \<Longrightarrow> snd wk1 = snd wk"
  by (auto simp: sleep_def counted_def split: prod.splits if_splits bool.splits)

lemma counted_limiter_wait: "limiter_wait (counted E) h l wk = (e, l1, wk1) \<Longrightarrow> snd wk1 = snd wk"
  by (auto simp: limiter_wait_def counted_def Let_def split: prod.splits rate_outcome.splits if_splits)

lemmas counted_steps = counted_rdap_do counted_backoff counted_sleep counted_limiter_wait

lemma counted_rdap_loop:
  "snd (snd (snd (rdap_loop (counted E) X retries endpoint host n attempt prev (l, wk)))) \<le>
   snd wk + nat (retries + 1 - int attempt)"
proof (induction "nat (retries + 1 - int attempt)" arbitrary: attempt prev l wk)
  case 0
  then show ?case by (subst rdap_loop.simps) (simp split: option.split)
next
  case (Suc left)
  have left: "left = nat (retries + 1 - int (Suc attempt))" and go: "\<not> retries < int attempt"
    using Suc.hyps(2) by linarith+
  have rec: "snd (snd (snd (rdap_loop (counted E) X retries endpoint host n (Suc attempt) (Some e) (l1, wk1)))) \<le>
      snd wk1 + left" for e l1 wk1
    using Suc.hyps(1) [OF left] left by simp
  show ?case
    unfolding Suc.hyps(2) [symmetric] using go
    by (subst rdap_loop.simps)
       (auto split: prod.split option.split sum.split res.split dest!: counted_steps intro: order.trans [OF rec])
qed

text \<open>
  Replies that are worth another attempt: a transport error, a body that cannot be read, and the
  four throttling statuses. The predicate and the run below are over scripted worlds.
\<close>

fun transient :: "http_reply \<Rightarrow> bool" where
  "transient HttpBadRequest = False"
| "transient HttpFailed = True"
| "transient (HttpReply code retry body) = (code \<in> {429, 502, 503, 504} \<or> code = 200 \<and> body = None)"

fun throttling :: "http_reply \<Rightarrow> bool" where
  "throttling (HttpReply code retry body) = (code \<in> {429, 502, 503, 504})"
| "throttling _ = False"

lemma script_limiter_wait:
  assumes "\<not> host_blocked (lim_hosts l) h (sc_now w)"
  shows "\<exists>l1. limiter_wait script_env h l w = (None, l1, w) \<and> same_hosts l l1"
  by (rule limiter_wait_granted) (simp_all add: assms)

lemma host_blocked_later: "\<not> host_blocked m h t \<Longrightarrow> t \<le> u \<Longrightarrow> \<not> host_blocked m h u"
  by (simp add: host_blocked_def)

lemma rdap_do_transient:
  assumes "transient reply"
  shows "\<exists>e ra. rdap_do script_env X endpoint host n (w\<lparr>sc_http := reply # more_replies\<rparr>) =
      (Inl e, ra, w\<lparr>sc_http := more_replies\<rparr>) \<and> as_retryable e \<and> (throttling reply \<longrightarrow> as_rate_limited e)"
  using assms by (cases reply) (auto simp: rdap_do_def Let_def)

lemma script_backoff_sleep:
  assumes "n \<le> 34"
  shows "\<exists>d. backoff script_env n ra w = (Ok d, w) \<and> 0 < d \<and>
    sleep script_env d w = (None, w\<lparr>sc_now := sc_now w + d\<rparr>)"
proof (cases "0 < ra")
  case True
  then show ?thesis by (auto simp: backoff_def sleep_def second_def min_def)
next
  case False
  have "500 * millisecond \<le> backoff_base n" using assms backoff_base_range by blast
  then have "0 < go_div (backoff_base n) 2" by (simp add: go_div_def const_defs)
  with False show ?thesis by (simp add: backoff_def sleep_def)
qed

text \<open>One transient reply before the last attempt only costs a delay.\<close>

lemma rdap_loop_transient:
  assumes "transient reply" and "int attempt < retries" and "retries \<le> 35"
    and "\<not> host_blocked (lim_hosts l) host (sc_now w)" and "0 \<le> sc_now w"
  shows "\<exists>e l1 d. 0 < d \<and> same_hosts l l1 \<and>
    rdap_loop script_env X retries endpoint host n attempt prev (l, w\<lparr>sc_http := reply # more_replies\<rparr>) =
    rdap_loop script_env X retries endpoint host n (Suc attempt) (Some e)
      (l1, w\<lparr>sc_now := sc_now w + d, sc_http := more_replies\<rparr>)"
proof -
  let ?w = "w\<lparr>sc_http := reply # more_replies\<rparr>" and ?w1 = "w\<lparr>sc_http := more_replies\<rparr>"
  obtain l1 where l1: "limiter_wait script_env host l ?w = (None, l1, ?w)" "same_hosts l l1"
    using script_limiter_wait [of l host ?w] assms(4) by auto
  obtain e ra where e: "rdap_do script_env X endpoint host n ?w = (Inl e, ra, ?w1)" "as_retryable e"
    using rdap_do_transient [OF assms(1)] by blast
  obtain d where d: "backoff script_env attempt ra ?w1 = (Ok d, ?w1)" "0 < d"
    "sleep script_env d ?w1 = (None, ?w1\<lparr>sc_now := sc_now ?w1 + d\<rparr>)"
    using script_backoff_sleep [of attempt ra ?w1] assms(2,3) by auto
  have "rdap_loop script_env X retries endpoint host n attempt prev (l, ?w) =
    rdap_loop script_env X retries endpoint host n (Suc attempt) (Some e)
      (l1, w\<lparr>sc_now := sc_now w + d, sc_http := more_replies\<rparr>)"
    using assms(2) l1(1) e d by (subst rdap_loop.simps) simp
  with l1(2) d(2) show ?thesis by blast
qed

lemma rdap_loop_transients:
  assumes "list_all transient replies" and "int attempt + int (length replies) \<le> retries" and "retries \<le> 35"
    and "\<not> host_blocked (lim_hosts l) host (sc_now w)" and "0 \<le> sc_now w"
  shows "\<exists>p l1 t. sc_now w \<le> t \<and> same_hosts l l1 \<and>
    rdap_loop script_env X retries endpoint host n attempt prev (l, w\<lparr>sc_http := replies @ more_replies\<rparr>) =
    rdap_loop script_env X retries endpoint host n (attempt + length replies) p
      (l1, w\<lparr>sc_now := t, sc_http := more_replies\<rparr>)"
  using assms
proof (induction replies arbitrary: attempt l w prev)
  case Nil
  have "w\<lparr>sc_now := sc_now w, sc_http := more_replies\<rparr> = w\<lparr>sc_http := more_replies\<rparr>" by simp
  with same_hosts_refl [of l] show ?case by (metis append_Nil list.size(3) add.right_neutral order.refl)
next
  case (Cons reply replies)
  then obtain e l1 d where step: "0 < d" "same_hosts l l1"
    "rdap_loop script_env X retries endpoint host n attempt prev (l, w\<lparr>sc_http := reply # replies @ more_replies\<rparr>) =
     rdap_loop script_env X retries endpoint host n (Suc attempt) (Some e)
      (l1, w\<lparr>sc_now := sc_now w + d, sc_http := replies @ more_replies\<rparr>)"
    using rdap_loop_transient [of reply attempt retries l host w X endpoint n prev "replies @ more_replies"] by auto
  let ?w = "w\<lparr>sc_now := sc_now w + d\<rparr>"
  have "\<not> host_blocked (lim_hosts l1) host (sc_now ?w)"
    using Cons.prems(4,5) step(1,2) host_blocked_later [of "lim_hosts l" host "sc_now w" "sc_now ?w"]
    by (simp add: same_hosts_def) (metis add_nonneg_pos not_less_iff_gr_or_eq)
  with Cons.prems Cons.IH [of "Suc attempt" l1 ?w "Some e"] step
  obtain p l2 t where "sc_now ?w \<le> t" "same_hosts l1 l2"
    "rdap_loop script_env X retries endpoint host n (Suc attempt) (Some e) (l1, ?w\<lparr>sc_http := replies @ more_replies\<rparr>) =
     rdap_loop script_env X retries endpoint host n (Suc attempt + length replies) p
      (l2, ?w\<lparr>sc_now := t, sc_http := more_replies\<rparr>)"
    by auto
  with step same_hosts_trans [OF step(2)] show ?case by (intro exI [of _ p] exI [of _ l2] exI [of _ t]) auto
qed

lemma rdap_query_transients:
  assumes "list_all transient replies" and "int (length replies) \<le> retries" and "retries \<le> 35"
    and "x_join_path X base [''domain'', n_ascii n] = Some endpoint"
    and "\<not> host_blocked (lim_hosts l) (host_of X base) (sc_now w)" and "0 \<le> sc_now w"
  obtains p l1 t where "0 \<le> t" "same_hosts l l1"
    "\<not> host_blocked (lim_hosts l1) (host_of X base) t"
    "rdap_query script_env X retries base n (l, w\<lparr>sc_http := replies @ more_replies\<rparr>) =
     rdap_loop script_env X retries endpoint (host_of X base) n (length replies) p
      (l1, w\<lparr>sc_http := more_replies, sc_now := t\<rparr>)"
proof -
  from rdap_loop_transients [of replies 0 retries l "host_of X base" w X endpoint n None more_replies] assms
  obtain p l1 t where run: "sc_now w \<le> t" "same_hosts l l1"
    "rdap_loop script_env X retries endpoint (host_of X base) n 0 None (l, w\<lparr>sc_http := replies @ more_replies\<rparr>) =
     rdap_loop script_env X retries endpoint (host_of X base) n (length replies) p
      (l1, w\<lparr>sc_http := more_replies, sc_now := t\<rparr>)"
    by auto
  have "\<not> host_blocked (lim_hosts l1) (host_of X base) t"
    using host_blocked_later [OF assms(5) run(1)] run(1,2) assms(6)
    by (simp add: same_hosts_def) (metis le_less_trans not_less)
  with run assms(4,6) show ?thesis by (intro that [of t l1 p]) (simp_all add: rdap_query_def)
qed

section \<open>Properties\<close>

text \<open>
  C12: a check reports a name as not registered only when one of the base addresses of its TLD
  answered 404 to the query for that name; the answer names that endpoint as its source.
\<close>

theorem rdap_not_registered_means_404:
  assumes "fst (rdap_check E X retries n s) = Ok r" and "pr_registration r = RegistrationNotRegistered"
  shows "\<exists>base \<in> set (fst (base_urls E X (n_tld n) (rd_bootstrap (fst s)) (snd s))).
    x_join_path X base [''domain'', n_ascii n] = Some (pr_source r) \<and>
    (\<exists>w retry body. fst (e_http_get E (pr_source r) w) = HttpReply 404 retry body)"
proof -
  from assms(1) obtain urls b w1 where urls: "base_urls E X (n_tld n) (rd_bootstrap (fst s)) (snd s) = (urls, b, w1)"
    and run: "fst (rdap_bases E X retries (e_now E w1) urls n (Failure []) (rd_limiter (fst s), w1)) = Ok r"
    by (rule rdap_check_bases)
  let ?Q = "\<lambda>r. pr_registration r = RegistrationNotRegistered \<longrightarrow>
    (\<exists>base \<in> set urls. x_join_path X base [''domain'', n_ascii n] = Some (pr_source r) \<and>
      (\<exists>w retry body. fst (e_http_get E (pr_source r) w) = HttpReply 404 retry body))"
  have "?Q r"
  proof (rule rdap_bases_result [where Q = ?Q, OF _ _ _ run])
    fix base endpoint host w q ra w1 l
    assume "base \<in> set urls" and do: "rdap_do E X endpoint host n w = (Inr q, ra, w1)"
      and join: "x_join_path X base [''domain'', n_ascii n] = Some endpoint"
    moreover have "pr_source q = endpoint" if "pr_registration q = RegistrationNotRegistered"
      using do that by (auto simp: rdap_do_def Let_def split: prod.splits http_reply.splits option.splits if_splits
          dest!: parse_response_coherent(2))
    ultimately show "?Q (q\<lparr>pr_latency_ms := l\<rparr>)" using rdap_do_not_registered [OF do] by auto
  qed (auto simp: rdap_failed_def zero_result_def split: if_splits)
  with assms(2) urls show ?thesis by simp
qed

theorem rdap_not_registered_means_404_witness:
  "\<exists>r :: provider_result. pr_source r = ''https://r/domain/a.io'' \<and>
    (\<exists>w retry body. fst (e_http_get script_env (pr_source r) w) = HttpReply 404 retry body)"
proof -
  let ?n = "\<lparr>n_input = [], n_ascii = ''a.io'', n_unicode = [], n_tld = ''io'', n_suffix = [], n_sld = []\<rparr>"
  let ?b = "\<lparr>bs_ttl = hour, bs_services = [''io'' \<mapsto> [''https://r'']], bs_publication = 0,
           bs_fetched_at = 0, bs_refreshing = False\<rparr>"
  let ?l = "\<lparr>lim_cfg = \<lparr>lc_rps = 1, lc_burst = 1, lc_failure_threshold = 1, lc_open_duration = 1\<rparr>,
    lim_hosts = Map.empty\<rparr>"
  let ?s = "(\<lparr>rd_bootstrap = ?b, rd_limiter = ?l\<rparr>, idle_script\<lparr>sc_http := [HttpReply 404 [] None]\<rparr>)"
  have urls: "base_urls script_env plain_externals ''io'' ?b w = ([''https://r''], ?b, w)" if "sc_now w = 0" for w
    using that by (simp add: base_urls_def stale_def time_sub_def hour_def)
  have join: "x_join_path plain_externals ''https://r'' [''domain'', ''a.io''] = Some ''https://r/domain/a.io''"
    by (simp add: plain_externals_def)
  have "\<exists>r. fst (rdap_check script_env plain_externals 0 ?n ?s) = Ok r \<and>
      pr_registration r = RegistrationNotRegistered \<and> pr_source r = ''https://r/domain/a.io''"
    by (simp add: rdap_check_def urls idle_script_def rdap_query_def join rdap_loop.simps limiter_wait_def
        host_entry_def fresh_host_def rdap_do_def)
  then obtain r where r: "fst (rdap_check script_env plain_externals 0 ?n ?s) = Ok r"
    "pr_registration r = RegistrationNotRegistered" "pr_source r = ''https://r/domain/a.io''"
    by blast
  from rdap_not_registered_means_404 [OF r(1,2)]
  have "\<exists>w retry body. fst (e_http_get script_env (pr_source r) w) = HttpReply 404 retry body" by blast
  with r(3) show ?thesis by blast
qed


definition sample_limits :: limiter_config where
  "sample_limits = \<lparr>lc_rps = 5, lc_burst = 5, lc_failure_threshold = 5, lc_open_duration = minute\<rparr>"




text \<open>One query of a base address sends at most one request more than the number of retries.\<close>

lemma rdap_query_requests:
  "snd (snd (snd (rdap_query (counted E) X retries base n (l, w, k)))) \<le> k + nat (retries + 1)"
  using counted_rdap_loop [of E X retries _ "host_of X base" n 0 None l "(w, k)"]
  by (simp add: rdap_query_def split: option.split)

text \<open>
  A negative number of retries, which the configuration accepts, makes the check send nothing
  and answer with the empty result for a supported TLD; that is neither unknown nor an error.
\<close>

lemma rdap_negative_retries:
  assumes "retries < 0" and "base_urls E X (n_tld n) (rd_bootstrap st) w = (base # bases, b, w1)"
    and "x_join_path X base [''domain'', n_ascii n] = Some endpoint"
  shows "\<exists>ms. rdap_check E X retries n (st, w) =
    (Ok (zero_result\<lparr>pr_latency_ms := ms\<rparr>), st\<lparr>rd_bootstrap := b\<rparr>, w1)"
  using assms by (simp add: rdap_check_def rdap_query_def rdap_loop.simps) blast

text \<open>
  A \<open>Retry-After\<close> of seconds is honoured up to 9223372036 seconds; one more wraps around to a
  negative delay, and 18446744074 seconds become less than a third of a second.
\<close>

lemma parse_retry_after_seconds:
  assumes "trim_space value \<noteq> []" and "atoi (trim_space value) = Some secs" and "0 \<le> secs"
  shows "(secs \<le> 9223372036 \<longrightarrow> parse_retry_after X now value = secs * second) \<and>
    (secs = 9223372037 \<longrightarrow> parse_retry_after X now value < 0) \<and>
    (secs = 18446744074 \<longrightarrow> parse_retry_after X now value = 290448384)"
  using assms by (simp add: parse_retry_after_def second_def wrap64_id) (simp add: wrap64_def)

end
