(* ===== verification/WhoisParse.thy ===== *)
theory WhoisParse
  imports Provider
begin

text \<open>
  \<^theory_text>\<open>internal/provider/whois/parse.go\<close> and \<open>parseIANAServer\<close> of \<^theory_text>\<open>servers.go\<close>: reading free-form
  WHOIS text.
\<close>

section \<open>Marker phrases\<close>

definition not_found_markers :: "string list" where
  "not_found_markers =
     [''no match for'', ''no match'', ''not found'', ''domain not found'', ''no entries found'',
      ''no data found'', ''no object found'', ''nothing found'', ''not registered'',
      ''free for registration'', ''available for registration'', ''status: free'',
      ''status: available'', ''no information available about domain name'',
      ''domain status: no object found'']"

definition registered_markers :: "string list" where
  "registered_markers =
     [''domain name:'', ''domain:'', ''creation date:'', ''created:'', ''registered on:'',
      ''registrar:'', ''status: connect'', ''status: active'', ''registry domain id:'']"

definition reserved_markers :: "string list" where
  "reserved_markers = [''reserved'', ''restricted'', ''blocked'']"

fun contains_any :: "string \<Rightarrow> string list \<Rightarrow> bool" where
  "contains_any haystack [] = False"
| "contains_any haystack (needle # needles) =
     (if contains haystack needle then True else contains_any haystack needles)"

section \<open>Registration details\<close>

datatype field =
    FRegistrar | FCreated | FExpires | FUpdated | FStatus | FNameserver | FRegistrarId

fun field_aliases :: "field \<Rightarrow> string list" where
  "field_aliases FRegistrar = [''registrar'', ''sponsoring registrar'']"
| "field_aliases FCreated =
     [''creation date'', ''created'', ''created on'', ''registered on'', ''registration time'',
      ''domain record activated'']"
| "field_aliases FExpires =
     [''registry expiry date'', ''expiration date'', ''expiry date'', ''paid-till'',
      ''renewal date'', ''expires on'']"
| "field_aliases FUpdated = [''updated date'', ''last updated'', ''last modified'', ''changed'']"
| "field_aliases FStatus = [''domain status'', ''status'', ''state'']"
| "field_aliases FNameserver = [''name server'', ''nserver'', ''nameserver'', ''domain nameservers'']"
| "field_aliases FRegistrarId = [''registrar iana id'']"

fun matches_alias :: "string \<Rightarrow> string list \<Rightarrow> bool" where
  "matches_alias key [] = False"
| "matches_alias key (alias # aliases) = (if key = alias then True else matches_alias key aliases)"

definition whois_time_layouts :: "string list" where
  "whois_time_layouts =
     [''2006-01-02T15:04:05Z07:00'', ''2006-01-02T15:04:05Z'', ''2006-01-02T15:04:05'',
      ''2006-01-02 15:04:05'', ''2006-01-02 15:04:05 MST'', ''2006-01-02'', ''02.01.2006 15:04:05'',
      ''02-Jan-2006'', ''02/01/2006'']"

fun first_layout :: "externals \<Rightarrow> string list \<Rightarrow> string \<Rightarrow> time option" where
  "first_layout X [] value = None"
| "first_layout X (layout # layouts) value =
     (case x_parse_time X layout value of Some t \<Rightarrow> Some t | None \<Rightarrow> first_layout X layouts value)"

definition parse_whois_time :: "externals \<Rightarrow> string \<Rightarrow> time option" where
  "parse_whois_time X value = first_layout X whois_time_layouts (trim_space value)"

text \<open>The switch over the keys; \<open>strings.Fields(value)[0]\<close> panics on an empty list of fields.\<close>

definition info_field :: "externals \<Rightarrow> string \<Rightarrow> string \<Rightarrow> domain_info \<Rightarrow> domain_info res" where
  "info_field X key value i =
     (if matches_alias key (field_aliases FRegistrarId)
      then Ok (i\<lparr>di_registrar_iana_id := value\<rparr>)
      else if matches_alias key (field_aliases FRegistrar) \<and> di_registrar i = []
      then Ok (i\<lparr>di_registrar := value\<rparr>)
      else if matches_alias key (field_aliases FCreated) \<and> di_registration_date i = None
      then Ok (i\<lparr>di_registration_date := parse_whois_time X value\<rparr>)
      else if matches_alias key (field_aliases FExpires) \<and> di_expiration_date i = None
      then Ok (i\<lparr>di_expiration_date := parse_whois_time X value\<rparr>)
      else if matches_alias key (field_aliases FUpdated) \<and> di_last_changed_date i = None
      then Ok (i\<lparr>di_last_changed_date := parse_whois_time X value\<rparr>)
      else if matches_alias key (field_aliases FStatus)
      then Ok (i\<lparr>di_statuses := di_statuses i @ [value]\<rparr>)
      else if matches_alias key (field_aliases FNameserver)
      then (case go_fields value of
              [] \<Rightarrow> Panic
            | f # _ \<Rightarrow> Ok (i\<lparr>di_nameservers := di_nameservers i @ [trim_suffix (lower X f) ''.'']\<rparr>))
      else Ok i)"

text \<open>One iteration of the loop over the lines.\<close>

definition info_line :: "externals \<Rightarrow> string \<Rightarrow> domain_info \<Rightarrow> domain_info res" where
  "info_line X line0 i =
     (let line = trim_space line0
      in if line = [] \<or> has_prefix line ''%'' \<or> has_prefix line ''#'' then Ok i
      else case cut (CHR '':'') line of
        None \<Rightarrow> Ok i
      | Some (raw_key, raw_value) \<Rightarrow>
        let key = lower X (trim_space raw_key); value = trim_space raw_value
        in if value = [] then Ok i else info_field X key value i)"

fun info_lines :: "externals \<Rightarrow> string list \<Rightarrow> domain_info \<Rightarrow> domain_info res" where
  "info_lines X [] i = Ok i"
| "info_lines X (line # lines) i =
     (case info_line X line i of Ok j \<Rightarrow> info_lines X lines j | Err e \<Rightarrow> Err e | Panic \<Rightarrow> Panic)"

definition parse_info :: "externals \<Rightarrow> string \<Rightarrow> name \<Rightarrow> string \<Rightarrow> domain_info res" where
  "parse_info X body n server =
     info_lines X (go_lines body)
       (zero_info\<lparr>di_domain := n_input n, di_normalized_domain := n_ascii n, di_registered := True,
                  di_source := server, di_provider := whois_name\<rparr>)"

section \<open>Classification\<close>

definition classify :: "externals \<Rightarrow> string \<Rightarrow> name \<Rightarrow> string \<Rightarrow> provider_result res" where
  "classify X body n server =
     (let low = lower X body;
          result = zero_result\<lparr>pr_provider := whois_name, pr_source := server, pr_raw := RawText body\<rparr>
      in if contains_any low not_found_markers
         then Ok (result\<lparr>pr_registration := RegistrationNotRegistered, pr_status := StatusAvailable,
                         pr_evidence := [evidence_tag whois_name ''no_match'']\<rparr>)
         else if contains_any low registered_markers
         then let reserved = contains_any low reserved_markers;
                  evidence = [evidence_tag whois_name ''record_found''] @
                    (if reserved then [evidence_tag whois_name ''reserved''] else [])
              in (case parse_info X body n server of
                    Ok info \<Rightarrow>
                      Ok (result\<lparr>pr_registration := RegistrationRegistered,
                                 pr_status := (if reserved then StatusReserved else StatusRegistered),
                                 pr_evidence := evidence, pr_info := Some info\<rparr>)
                  | Err e \<Rightarrow> Err e
                  | Panic \<Rightarrow> Panic)
         else Ok (result\<lparr>pr_registration := RegistrationUnknown, pr_status := StatusUnknown,
                         pr_evidence := [evidence_tag whois_name ''unparsable'']\<rparr>))"

section \<open>The IANA record of a TLD\<close>

fun first_whois_line :: "externals \<Rightarrow> string list \<Rightarrow> string" where
  "first_whois_line X [] = []"
| "first_whois_line X (line # lines) =
     (case cut (CHR '':'') line of
        None \<Rightarrow> first_whois_line X lines
      | Some (key, value) \<Rightarrow>
          if \<not> equal_fold (trim_space key) ''whois'' then first_whois_line X lines
          else let server = lower X (trim_space value)
               in if server \<noteq> [] then server else first_whois_line X lines)"

definition parse_iana_server :: "externals \<Rightarrow> string \<Rightarrow> string" where
  "parse_iana_server X body = first_whois_line X (go_lines body)"

section \<open>Lemmas\<close>

lemma contains_any_iff: "contains_any s ms \<longleftrightarrow> (\<exists>m \<in> set ms. contains s m)"
  by (induction s ms rule: contains_any.induct) auto

lemma matches_alias_iff: "matches_alias k as \<longleftrightarrow> k \<in> set as"
  by (induction k as rule: matches_alias.induct) auto

text \<open>A trimmed value that is not empty has a first field, so the index is in range.\<close>

lemma info_field_ok: "go_fields value \<noteq> [] \<Longrightarrow> \<exists>j. info_field X key value i = Ok j"
  unfolding info_field_def by (simp split: list.split)

lemma info_line_ok: "\<exists>j. info_line X line i = Ok j"
proof -
  have "go_fields (trim_space v) \<noteq> []" if "trim_space v \<noteq> []" for v
    using that by (intro go_fields_nonempty trim_space_no_leading)
  then show ?thesis
    by (simp add: info_line_def Let_def info_field_ok split: option.split prod.split)
qed

lemma info_lines_ok: "\<exists>j. info_lines X lines i = Ok j"
proof (induction lines arbitrary: i)
  case (Cons line lines)
  obtain k where "info_line X line i = Ok k" using info_line_ok by blast
  with Cons [of k] show ?case by auto
qed simp

lemma parse_info_ok: "\<exists>j. parse_info X body n server = Ok j"
  unfolding parse_info_def by (rule info_lines_ok)

text \<open>
  What the loop keeps: the identity of the record, everything already listed, and a registrar and
  dates already set.
\<close>

definition keeps :: "domain_info \<Rightarrow> domain_info \<Rightarrow> bool" where
  "keeps i j =
     (di_domain j = di_domain i \<and> di_normalized_domain j = di_normalized_domain i \<and>
      di_registered j = di_registered i \<and> di_source j = di_source i \<and>
      di_provider j = di_provider i \<and>
      has_prefix_list (di_statuses i) (di_statuses j) \<and>
      has_prefix_list (di_nameservers i) (di_nameservers j) \<and>
      (di_registrar i \<noteq> [] \<longrightarrow> di_registrar j = di_registrar i) \<and>
      (di_registration_date i \<noteq> None \<longrightarrow> di_registration_date j = di_registration_date i) \<and>
      (di_expiration_date i \<noteq> None \<longrightarrow> di_expiration_date j = di_expiration_date i))"

lemma keeps_refl [simp]: "keeps i i"
  by (simp add: keeps_def)

lemma keeps_trans: "keeps i j \<Longrightarrow> keeps j k \<Longrightarrow> keeps i k"
  by (simp add: keeps_def) (metis has_prefix_list_trans)

lemma keeps_updates [simp]:
  "keeps i (i\<lparr>di_registrar_iana_id := v\<rparr>)"
  "di_registrar i = [] \<Longrightarrow> keeps i (i\<lparr>di_registrar := v\<rparr>)"
  "di_registration_date i = None \<Longrightarrow> keeps i (i\<lparr>di_registration_date := t\<rparr>)"
  "di_expiration_date i = None \<Longrightarrow> keeps i (i\<lparr>di_expiration_date := t\<rparr>)"
  "keeps i (i\<lparr>di_last_changed_date := t\<rparr>)"
  "keeps i (i\<lparr>di_statuses := di_statuses i @ vs\<rparr>)"
  "keeps i (i\<lparr>di_nameservers := di_nameservers i @ vs\<rparr>)"
  by (simp_all add: keeps_def)

definition res_keeps :: "domain_info \<Rightarrow> domain_info res \<Rightarrow> bool" where
  "res_keeps i r = (case r of Ok j \<Rightarrow> keeps i j | _ \<Rightarrow> True)"

lemma res_keeps_simps [simp]: "res_keeps i (Ok j) = keeps i j" "res_keeps i (Err e)" "res_keeps i Panic"
  by (simp_all add: res_keeps_def)

lemma info_field_keeps: "res_keeps i (info_field X key value i)"
  unfolding info_field_def by (simp split: list.split)

lemma info_line_keeps: "res_keeps i (info_line X line i)"
  by (simp add: info_line_def Let_def info_field_keeps split: option.split prod.split)

lemma info_lines_keeps: "res_keeps i (info_lines X lines i)"
proof (induction lines arbitrary: i)
  case (Cons line lines)
  obtain k where k: "info_line X line i = Ok k" using info_line_ok by blast
  obtain j where j: "info_lines X lines k = Ok j" using info_lines_ok by blast
  from k info_line_keeps [of i X line] have "keeps i k" by simp
  moreover from Cons [of k] j have "keeps k j" by simp
  ultimately show ?case using k j keeps_trans by simp
qed simp

lemma classify_ok: "\<exists>r. classify X body n server = Ok r"
  using parse_info_ok [of X body n server] by (auto simp: classify_def Let_def)

lemma parse_info_frame:
  "parse_info X body n server = Ok info \<Longrightarrow> di_registered info \<and> di_domain info = n_input n \<and>
   di_normalized_domain info = n_ascii n \<and> di_source info = server \<and> di_provider info = whois_name"
  using info_lines_keeps [of "zero_info\<lparr>di_domain := n_input n, di_normalized_domain := n_ascii n,
      di_registered := True, di_source := server, di_provider := whois_name\<rparr>" X "go_lines body"]
  by (simp add: parse_info_def keeps_def)

lemma classify_coherent: "classify X body n server = Ok r \<Longrightarrow> coherent whois_name r"
  using parse_info_ok [of X body n server] parse_info_frame [of X body n server]
  by (auto simp: classify_def Let_def coherent_def split: if_splits)

lemma first_whois_line_nonempty_lower:
  "first_whois_line X lines \<noteq> [] \<Longrightarrow>
   \<exists>line \<in> set lines. \<exists>k v. cut (CHR '':'') line = Some (k, v) \<and> equal_fold (trim_space k) ''whois'' \<and>
     first_whois_line X lines = lower X (trim_space v)"
  by (induction lines) (auto simp: Let_def split: option.splits if_splits prod.splits)

lemma first_whois_line_skip:
  assumes "\<forall>l \<in> set ls. \<forall>k v. cut (CHR '':'') l = Some (k, v) \<longrightarrow> \<not> equal_fold (trim_space k) ''whois''"
  shows "first_whois_line X (ls @ rest) = first_whois_line X rest"
  using assms by (induction ls) (auto split: option.splits)

lemma go_lines_line: "newline \<notin> set l \<Longrightarrow> go_lines (l @ newline # rest) = (l @ [newline]) # go_lines rest"
  by (induction l) auto

lemma go_lines_block:
  "\<forall>l \<in> set ls. newline \<notin> set l \<Longrightarrow>
   go_lines (concat (map (\<lambda>l. l @ [newline]) ls) @ rest) = map (\<lambda>l. l @ [newline]) ls @ go_lines rest"
  by (induction ls) (simp_all add: go_lines_line)

section \<open>Properties\<close>

text \<open>
  Reading the registration details never panics, whatever the server sent; the details carry
  the name asked for and the server asked, and are marked as registered.
\<close>

lemma parse_info_total:
  "\<exists>info. parse_info X body n server = Ok info \<and> di_registered info \<and>
    di_domain info = n_input n \<and> di_normalized_domain info = n_ascii n \<and>
    di_source info = server \<and> di_provider info = whois_name"
  using parse_info_ok [of X body n server] parse_info_frame [of X body n server] by blast

text \<open>
  C23: a WHOIS reply counts as free exactly when it holds one of the not-found phrases, as taken
  exactly when it holds none of them but a registration phrase, and is unknown otherwise; the
  result is never missing and always coherent.
\<close>

theorem classify_verdict:
  fixes X :: externals and body :: string and n :: name and server :: string
  defines "free \<equiv> \<exists>m \<in> set not_found_markers. contains (lower X body) m"
    and "taken \<equiv> \<exists>m \<in> set registered_markers. contains (lower X body) m"
  shows "\<exists>r. classify X body n server = Ok r \<and> coherent whois_name r \<and>
    (pr_registration r = RegistrationNotRegistered \<longleftrightarrow> free) \<and>
    (pr_registration r = RegistrationRegistered \<longleftrightarrow> \<not> free \<and> taken) \<and>
    (pr_registration r = RegistrationUnknown \<longleftrightarrow> \<not> free \<and> \<not> taken) \<and>
    (pr_status r = StatusAvailable \<longleftrightarrow> free) \<and> (pr_info r \<noteq> None \<longleftrightarrow> \<not> free \<and> taken)"
proof -
  obtain r where r: "classify X body n server = Ok r" using classify_ok by blast
  obtain i where i: "parse_info X body n server = Ok i" using parse_info_ok by blast
  have "coherent whois_name r" using r by (rule classify_coherent)
  with r i show ?thesis
    by (auto simp: classify_def Let_def free_def taken_def contains_any_iff zero_result_def
        split: if_splits)
qed

text \<open>
  A registration record that merely carries the usual \<open>All rights reserved\<close> notice is reported
  as withheld by the registry.
\<close>

lemma classify_rights_notice_reserved:
  assumes "contains (lower X body) ''all rights reserved''"
    and "\<exists>m \<in> set registered_markers. contains (lower X body) m"
    and "\<forall>m \<in> set not_found_markers. \<not> contains (lower X body) m"
    and "classify X body n server = Ok r"
  shows "pr_registration r = RegistrationRegistered \<and> pr_status r = StatusReserved"
proof -
  from assms(1) obtain a b where "lower X body = (a @ ''all rights '') @ ''reserved'' @ b"
    unfolding contains_iff by auto
  then have "contains (lower X body) ''reserved''" unfolding contains_iff by blast
  then have "contains_any (lower X body) reserved_markers" by (simp add: reserved_markers_def)
  with assms(2-4) show ?thesis
    by (auto simp: classify_def Let_def contains_any_iff split: if_splits res.splits)
qed

text \<open>
  The WHOIS server of a TLD is the value of the first line of the IANA record whose key is
  \<open>whois\<close> in any letter case and whose value is not empty, whatever lines follow.
\<close>

lemma parse_iana_server_first:
  assumes "\<forall>l \<in> set before. newline \<notin> set l"
    and "\<forall>l \<in> set before. \<forall>k v. cut (CHR '':'') (l @ [newline]) = Some (k, v) \<longrightarrow>
           \<not> equal_fold (trim_space k) ''whois''"
    and "newline \<notin> set (key @ value)" and "CHR '':'' \<notin> set key"
    and "equal_fold (trim_space key) ''whois''" and "lower X (trim_space (value @ [newline])) \<noteq> []"
  shows "parse_iana_server X
      (concat (map (\<lambda>l. l @ [newline]) before) @ (key @ '':'' @ value) @ newline # after) =
    lower X (trim_space (value @ [newline]))"
proof -
  have line: "go_lines ((key @ '':'' @ value) @ newline # after) =
      ((key @ '':'' @ value) @ [newline]) # go_lines after"
    using assms(3) by (intro go_lines_line) (auto simp: newline_def)
  have cut: "cut (CHR '':'') (key @ CHR '':'' # (value @ [newline])) = Some (key, value @ [newline])"
    using assms(4) by (rule cut_append)
  have "parse_iana_server X
      (concat (map (\<lambda>l. l @ [newline]) before) @ (key @ '':'' @ value) @ newline # after) =
    first_whois_line X (map (\<lambda>l. l @ [newline]) before @
      ((key @ '':'' @ value) @ [newline]) # go_lines after)"
    unfolding parse_iana_server_def by (simp only: go_lines_block [OF assms(1)] line)
  also have "\<dots> = first_whois_line X (((key @ '':'' @ value) @ [newline]) # go_lines after)"
    using assms(2) by (intro first_whois_line_skip) auto
  also have "\<dots> = lower X (trim_space (value @ [newline]))"
    using cut assms(5,6) by (simp add: Let_def)
  finally show ?thesis .
qed

end
