(* ===== verification/WhoisClient.thy ===== *)
theory WhoisClient
  imports WhoisParse RateLimit Expiry
begin

text \<open>
  \<^theory_text>\<open>internal/provider/whois/servers.go\<close> and \<^theory_text>\<open>whois.go\<close>: discovering the server of a TLD, one
  exchange over port 43, and the source built on them. The dialling, writing and reading of
  \<open>query\<close> are \<open>e_whois\<close> of the environment.
\<close>

section \<open>One exchange\<close>

definition max_response_bytes :: nat where "max_response_bytes = 524288"

definition crlf :: string where "crlf = [CHR 0x0D, CHR 0x0A]"

definition whois_query :: "'w env \<Rightarrow> string \<Rightarrow> string \<Rightarrow> 'w \<Rightarrow> (go_error + string) \<times> 'w" where
  "whois_query E server request w =
     (case e_whois E server (request @ crlf) w of
        (WhoisDialFailed, w1) \<Rightarrow> (Inl (Wrapped ''whois: dial'' (Failure server)), w1)
      | (WhoisWriteFailed, w1) \<Rightarrow> (Inl (Wrapped ''whois: write'' (Failure server)), w1)
      | (WhoisRead received failed, w1) \<Rightarrow>
          let body = take max_response_bytes received
          in if failed \<and> body = [] then (Inl (Wrapped ''whois: read'' (Failure server)), w1)
             else (Inr body, w1))"

section \<open>The server registry\<close>

definition iana_server :: string where "iana_server = ''whois.iana.org''"

definition server_cache_ttl :: duration where "server_cache_ttl = 24 * hour"

record server_entry =
  se_server :: string
  se_fetched_at :: time

type_synonym registry = "string \<rightharpoonup> server_entry"

definition new_server_registry :: registry where [simp]: "new_server_registry = Map.empty"

definition registry_lookup :: "registry \<Rightarrow> string \<Rightarrow> time \<Rightarrow> string option" where
  "registry_lookup reg tld now =
     (case reg tld of
        Some entry \<Rightarrow> if time_sub now (se_fetched_at entry) < server_cache_ttl
                      then Some (se_server entry) else None
      | None \<Rightarrow> None)"

definition registry_store :: "string \<Rightarrow> string \<Rightarrow> time \<Rightarrow> registry \<Rightarrow> registry" where
  "registry_store tld server now reg = reg(tld \<mapsto> \<lparr>se_server = server, se_fetched_at = now\<rparr>)"

definition registry_server ::
  "'w env \<Rightarrow> externals \<Rightarrow> string \<Rightarrow> registry \<Rightarrow> 'w \<Rightarrow> (go_error + string) \<times> registry \<times> 'w" where
  "registry_server E X tld reg w =
     (case registry_lookup reg tld (e_now E w) of
        Some server \<Rightarrow> (Inr server, reg, w)
      | None \<Rightarrow>
          (case whois_query E iana_server tld w of
             (Inl e, w1) \<Rightarrow> (Inl (Wrapped ''whois: iana lookup'' e), reg, w1)
           | (Inr raw, w1) \<Rightarrow>
               let server = parse_iana_server X raw
               in (Inr server, registry_store tld server (e_now E w1) reg, w1)))"

lemma time_sub_less: "0 < d \<Longrightarrow> d \<le> max_int64 \<Longrightarrow> time_sub t u < d \<longleftrightarrow> t < u + d"
  by (auto simp: time_sub_def)

interpretation registry: expiring_store registry_lookup registry_store Map.empty "\<lambda>_. server_cache_ttl"
  by unfold_locales
     (auto simp: registry_lookup_def registry_store_def server_cache_ttl_def hour_def time_sub_less)

section \<open>The source\<close>

record whois_state =
  ws_registry :: registry
  ws_limiter :: limiter

definition whois_supports ::
  "'w env \<Rightarrow> externals \<Rightarrow> name \<Rightarrow> whois_state \<times> 'w \<Rightarrow> bool \<times> whois_state \<times> 'w" where
  "whois_supports E X n s =
     (let (st, w) = s
      in case registry_server E X (n_tld n) (ws_registry st) w of
           (Inl e, reg, w1) \<Rightarrow> (False, st\<lparr>ws_registry := reg\<rparr>, w1)
         | (Inr server, reg, w1) \<Rightarrow> (server \<noteq> [], st\<lparr>ws_registry := reg\<rparr>, w1))"

text \<open>\<open>Check\<close> once the server is known.\<close>

definition whois_ask ::
  "'w env \<Rightarrow> externals \<Rightarrow> name \<Rightarrow> time \<Rightarrow> string \<Rightarrow> whois_state \<times> 'w \<Rightarrow>
   provider_result res \<times> whois_state \<times> 'w" where
  "whois_ask E X n started server s =
     (let (st, w) = s
      in case limiter_wait E server (ws_limiter st) w of
        (Some e, l, w1) \<Rightarrow>
          if as_circuit_open e
          then (Ok (zero_result\<lparr>pr_provider := whois_name, pr_registration := RegistrationUnknown,
                      pr_status := StatusRateLimited,
                      pr_evidence := [evidence_tag whois_name ''circuit_open''],
                      pr_latency_ms := milliseconds (time_sub (e_now E w1) started),
                      pr_error := Some e\<rparr>),
                st\<lparr>ws_limiter := l\<rparr>, w1)
          else (Err e, st\<lparr>ws_limiter := l\<rparr>, w1)
      | (None, l, w1) \<Rightarrow>
          (case whois_query E server (n_ascii n) w1 of
             (Inl e, w2) \<Rightarrow> (Err e, st\<lparr>ws_limiter := report_failure E server l w2\<rparr>, w2)
           | (Inr body, w2) \<Rightarrow>
               let st2 = st\<lparr>ws_limiter := report_success server l\<rparr>
               in (case classify X body n server of
                     Ok r \<Rightarrow> (Ok (r\<lparr>pr_latency_ms := milliseconds (time_sub (e_now E w2) started)\<rparr>), st2, w2)
                   | Err e \<Rightarrow> (Err e, st2, w2)
                   | Panic \<Rightarrow> (Panic, st2, w2))))"

definition whois_check ::
  "'w env \<Rightarrow> externals \<Rightarrow> name \<Rightarrow> whois_state \<times> 'w \<Rightarrow> provider_result res \<times> whois_state \<times> 'w" where
  "whois_check E X n s =
     (let (st, w) = s; started = e_now E w
      in case registry_server E X (n_tld n) (ws_registry st) w of
           (Inl e, reg, w1) \<Rightarrow> (Err e, st\<lparr>ws_registry := reg\<rparr>, w1)
         | (Inr server, reg, w1) \<Rightarrow>
             if server = [] then (Err (Failure ''whois: no server''), st\<lparr>ws_registry := reg\<rparr>, w1)
             else whois_ask E X n started server (st\<lparr>ws_registry := reg\<rparr>, w1))"

lemma whois_ask_coherent: "fst (whois_ask E X n t server s) = Ok r \<Longrightarrow> coherent whois_name r"
  using classify_ok [of X _ n server]
  by (auto simp: whois_ask_def Let_def coherent_def zero_result_def
      split: prod.splits option.splits sum.splits res.splits if_splits
      dest!: classify_coherent)

lemma whois_check_coherent: "fst (whois_check E X n s) = Ok r \<Longrightarrow> coherent whois_name r"
  by (auto simp: whois_check_def Let_def split: prod.splits sum.splits if_splits
      dest: whois_ask_coherent)

lemma whois_ask_no_panic: "\<not> is_panic (fst (whois_ask E X n t server s))"
  using classify_ok [of X _ n server]
  by (auto simp: whois_ask_def Let_def split: prod.splits option.splits sum.splits res.splits)
     (metis res.distinct(3))

lemma whois_check_no_panic: "\<not> is_panic (fst (whois_check E X n s))"
  by (auto simp: whois_check_def Let_def whois_ask_no_panic split: prod.splits sum.splits)

interpretation whois: source_contract whois_name "whois_check E X" True for E X
  by unfold_locales (auto dest: whois_check_coherent)

lemma report_failures:
  "host_failures (lim_hosts (report_failure E h l w)) h = host_failures (lim_hosts l) h + 1"
  "host_failures (lim_hosts (report_success h l)) h = 0"
  by (simp_all add: report_failure_def report_success_def breaker.failures_bad breaker.failures_good)

section \<open>Properties\<close>

text \<open>One exchange with a known server, while the circuit is open and while it is closed.\<close>

lemma whois_ask_blocked:
  assumes "host_blocked (lim_hosts (ws_limiter st)) server (e_now E w)" and "whois_ask E X n t server (st, w) = (r, st2, w2)"
  shows "w2 = w \<and> host_failures (lim_hosts (ws_limiter st2)) server = host_failures (lim_hosts (ws_limiter st)) server \<and>
    (\<exists>q. r = Ok q \<and> pr_registration q = RegistrationUnknown \<and> pr_status q = StatusRateLimited)"
  using limiter_wait_blocked [OF assms(1)] assms(2) by (auto simp: whois_ask_def same_hosts_def)

lemma whois_ask_granted:
  assumes "\<not> host_blocked (lim_hosts (ws_limiter st)) server (e_now E w)" and "e_rate_wait E server w = (Granted, w1)"
    and "whois_ask E X n t server (st, w) = (r, st2, w2)"
  shows "w2 = snd (whois_query E server (n_ascii n) w1) \<and>
    (case fst (whois_query E server (n_ascii n) w1) of
       Inl e \<Rightarrow> r = Err e \<and>
         host_failures (lim_hosts (ws_limiter st2)) server = host_failures (lim_hosts (ws_limiter st)) server + 1
     | Inr body \<Rightarrow> host_failures (lim_hosts (ws_limiter st2)) server = 0 \<and>
         (\<exists>q l. classify X body n server = Ok q \<and> r = Ok (q\<lparr>pr_latency_ms := l\<rparr>)))"
proof -
  obtain l1 where wait: "limiter_wait E server (ws_limiter st) w = (None, l1, w1)" and same: "same_hosts (ws_limiter st) l1"
    using limiter_wait_granted [OF assms(1,2)] by blast
  obtain q w3 where q: "whois_query E server (n_ascii n) w1 = (q, w3)" by (metis surj_pair)
  show ?thesis
  proof (cases q)
    case (Inl e)
    with wait q same assms(3) show ?thesis by (auto simp: whois_ask_def report_failures same_hosts_def)
  next
    case (Inr body)
    obtain v where "classify X body n server = Ok v" using classify_ok by blast
    with Inr wait q assms(3) show ?thesis by (auto simp: whois_ask_def report_failures Let_def)
  qed
qed

text \<open>
  Once a lookup found the server of a TLD, a later lookup within the 24 hours returns it
  without touching the network, whatever other TLDs were looked up in between.
\<close>

lemma registry_server_cached:
  assumes "registry_lookup reg tld (e_now E w) = None"
    and "registry_server E X tld reg w = (Inr server, reg1, w1)"
    and "\<forall>(k, v, t) \<in> set others. k \<noteq> tld" and "e_now E w2 < e_now E w1 + server_cache_ttl"
  defines "reg2 \<equiv> fold (\<lambda>(k, v, t). registry_store k v t) others reg1"
  shows "registry_server E X tld reg2 w2 = (Inr server, reg2, w2)"
proof -
  from assms(1,2) have "reg1 = registry_store tld server (e_now E w1) reg"
    by (auto simp: registry_server_def Let_def split: prod.splits sum.splits)
  then have "registry_lookup reg2 tld (e_now E w2) = Some server"
    unfolding reg2_def using assms(3,4)
    by (simp add: registry.look_fresh server_cache_ttl_def hour_def)
  then show ?thesis by (simp add: registry_server_def)
qed

text \<open>
  C22: what one WHOIS check does with the circuit breaker of the server. A blocked host is answered
  as rate limited with the world untouched; otherwise the exchange is made, a failed one counts as
  one more failure and is returned as an error, a completed one clears the count.
\<close>

theorem whois_check_breaker:
  assumes "registry_lookup (ws_registry st) (n_tld n) (e_now E w) = Some server" and "server \<noteq> []"
    and "e_rate_wait E server w = (Granted, w1)" and "whois_check E X n (st, w) = (r, st2, w2)"
  defines "m \<equiv> lim_hosts (ws_limiter st)" and "m2 \<equiv> lim_hosts (ws_limiter st2)"
  shows "if host_blocked m server (e_now E w)
    then w2 = w \<and> host_failures m2 server = host_failures m server \<and>
      (\<exists>q. r = Ok q \<and> pr_registration q = RegistrationUnknown \<and> pr_status q = StatusRateLimited)
    else w2 = snd (whois_query E server (n_ascii n) w1) \<and>
      (case fst (whois_query E server (n_ascii n) w1) of
         Inl e \<Rightarrow> r = Err e \<and> host_failures m2 server = host_failures m server + 1
       | Inr body \<Rightarrow> host_failures m2 server = 0 \<and>
           (\<exists>q l. classify X body n server = Ok q \<and> r = Ok (q\<lparr>pr_latency_ms := l\<rparr>)))"
proof -
  have start: "whois_ask E X n (e_now E w) server (st, w) = (r, st2, w2)"
    using assms(1,2,4) by (simp add: whois_check_def registry_server_def)
  show ?thesis
  proof (cases "host_blocked m server (e_now E w)")
    case True
    then show ?thesis using whois_ask_blocked [OF _ start] by (simp add: m_def m2_def)
  next
    case False
    then show ?thesis using whois_ask_granted [OF _ assms(3) start] unfolding m_def m2_def by simp
  qed
qed

theorem whois_check_breaker_witness:
  "\<exists>st2 w2. whois_check script_env plain_externals
      \<lparr>n_input = [], n_ascii = ''a.io'', n_unicode = [], n_tld = ''io'', n_suffix = [], n_sld = []\<rparr>
      (\<lparr>ws_registry = registry_store ''io'' ''s'' 0 Map.empty,
        ws_limiter = new_host_limiter \<lparr>lc_rps = 1, lc_burst = 2, lc_failure_threshold = 0, lc_open_duration = 0\<rparr>\<rparr>,
       idle_script) = (Err (Wrapped ''whois: dial'' (Failure ''s'')), st2, w2) \<and>
    host_failures (lim_hosts (ws_limiter st2)) ''s'' = 1"
proof -
  let ?n = "\<lparr>n_input = [], n_ascii = ''a.io'', n_unicode = [], n_tld = ''io'', n_suffix = [], n_sld = []\<rparr>"
  let ?l = "new_host_limiter \<lparr>lc_rps = 1, lc_burst = 2, lc_failure_threshold = 0, lc_open_duration = 0\<rparr>"
  let ?st = "\<lparr>ws_registry = registry_store ''io'' ''s'' 0 Map.empty, ws_limiter = ?l\<rparr>"
  obtain r st2 w2 where run: "whois_check script_env plain_externals ?n (?st, idle_script) = (r, st2, w2)"
    by (metis prod_cases3)
  have hosts: "lim_hosts ?l = Map.empty" by (simp add: new_host_limiter_def Let_def)
  then have free: "\<not> host_blocked (lim_hosts ?l) ''s'' 0" "host_failures (lim_hosts ?l) ''s'' = 0"
    by (simp_all add: host_blocked_def host_failures_def)
  have query: "whois_query script_env ''s'' ''a.io'' idle_script =
      (Inl (Wrapped ''whois: dial'' (Failure ''s'')), idle_script)"
    by (simp add: whois_query_def idle_script_def)
  have look: "registry_lookup (ws_registry ?st) (n_tld ?n) (e_now script_env idle_script) = Some ''s''"
    by (simp add: registry.look_put idle_script_def server_cache_ttl_def hour_def)
  have "r = Err (Wrapped ''whois: dial'' (Failure ''s'')) \<and> host_failures (lim_hosts (ws_limiter st2)) ''s'' = 1"
    using whois_check_breaker [OF look _ script_env_simps(3) run] free query
    by (simp add: idle_script_def)
  with run show ?thesis by blast
qed

end
