(* ===== verification/DnsProbe.thy ===== *)
theory DnsProbe
  imports Provider
begin

text \<open>
  \<^theory_text>\<open>internal/provider/dnsprobe/dnsprobe.go\<close>: delegation as corroborating evidence. The NS lookup
  is \<open>e_lookup_ns\<close> of the environment, made under the timeout of the probe.
\<close>

definition dns_supports :: "name \<Rightarrow> 'w \<Rightarrow> bool \<times> 'w" where
  "dns_supports n w = (True, w)"

definition dns_check :: "'w env \<Rightarrow> duration \<Rightarrow> name \<Rightarrow> 'w \<Rightarrow> provider_result res \<times> 'w" where
  "dns_check E timeout n w =
     (let w0 = e_with_timeout E timeout w; started = e_now E w0; (reply, w1) = e_lookup_ns E (n_ascii n) w0;
          result = zero_result\<lparr>pr_provider := dns_name, pr_source := ''system-resolver'',
                     pr_latency_ms := milliseconds (time_sub (e_now E w1) started)\<rparr>
      in (Ok (case reply of
            NsRecords (host # hosts) \<Rightarrow>
              result\<lparr>pr_registration := RegistrationRegistered, pr_status := StatusRegistered,
                     pr_evidence := [evidence_tag dns_name ''delegated''],
                     pr_raw := RawHosts (host # hosts)\<rparr>
          | NsFailed \<Rightarrow>
              result\<lparr>pr_registration := RegistrationUnknown, pr_status := StatusUnknown,
                     pr_evidence := [evidence_tag dns_name ''lookup_failed''],
                     pr_error := Some (Failure ''lookup'')\<rparr>
          | _ \<Rightarrow>
              result\<lparr>pr_registration := RegistrationUnknown, pr_status := StatusUnknown,
                     pr_evidence := [evidence_tag dns_name ''no_delegation'']\<rparr>), e_cancel E w1))"

lemma dns_check_ok: "\<exists>r. fst (dns_check E timeout n w) = Ok r"
  by (simp add: dns_check_def Let_def split: prod.split)

lemma dns_check_coherent:
  "fst (dns_check E timeout n w) = Ok r \<Longrightarrow> coherent dns_name r \<and>
    pr_registration r \<noteq> RegistrationNotRegistered \<and> pr_info r = None"
  by (auto simp: dns_check_def Let_def coherent_def split: prod.splits ns_reply.splits list.splits)

interpretation dns: source_contract dns_name "dns_check E timeout" False for E timeout
  by unfold_locales (auto dest: dns_check_coherent)

section \<open>Properties\<close>

text \<open>
  The probe always answers; it reports a registration exactly when the lookup found at least
  one name server, and never reports a name as not registered.
\<close>

lemma dns_check_only_confirms:
  "\<exists>r. fst (dns_check E timeout n w) = Ok r \<and> pr_registration r \<noteq> RegistrationNotRegistered \<and>
    pr_status r \<noteq> StatusAvailable \<and>
    (pr_registration r = RegistrationRegistered \<longleftrightarrow>
       (\<exists>h hs. fst (e_lookup_ns E (n_ascii n) (e_with_timeout E timeout w)) = NsRecords (h # hs)))"
  by (auto simp: dns_check_def Let_def split: prod.splits ns_reply.split list.split)

end
