(* ===== verification/System.thy ===== *)
theory System
  imports Flights RdapClient WhoisClient DnsProbe
begin

text \<open>
  \<^theory_text>\<open>buildEngine\<close> of \<^theory_text>\<open>cmd/domain-lens-mcp/main.go\<close> with its configuration: the three sources over
  one shared state, wired into an engine. Here the interfaces meet: every source satisfies the
  contract of the engine, and what the engine promises is stated of the program as configured.
\<close>

section \<open>Configuration\<close>

record config =
  cfg_transport :: string
  cfg_http_addr :: string
  cfg_log_level :: string
  cfg_request_timeout :: duration
  cfg_max_concurrency :: int
  cfg_rdap_rps :: rat
  cfg_rdap_retries :: int
  cfg_whois_enabled :: bool
  cfg_whois_rps :: rat
  cfg_dns_enabled :: bool
  cfg_dns_timeout :: duration
  cfg_cache_ttl :: cache_ttl
  cfg_healthcheck :: bool

definition validate :: "config \<Rightarrow> go_error option" where
  "validate c =
     (if cfg_transport c \<noteq> ''stdio'' \<and> cfg_transport c \<noteq> ''http''
      then Some (Failure ''unsupported transport'')
      else if cfg_max_concurrency c \<le> 0 then Some (Failure ''max-concurrency must be positive'')
      else if cfg_rdap_rps c \<le> 0 \<or> cfg_whois_rps c \<le> 0
      then Some (Failure ''rate limits must be positive'')
      else None)"

section \<open>The sources over the shared state\<close>

record 'w system =
  sy_rdap :: rdap_state
  sy_whois :: whois_state
  sy_world :: 'w

definition system_now :: "'w env \<Rightarrow> 'w system \<Rightarrow> time" where
  "system_now E s = e_now E (sy_world s)"

text \<open>The budget of the engine on the world of the shared state: its slots and its timeouts.\<close>

definition system_budget :: "'w env \<Rightarrow> 'w system budget" where
  "system_budget E =
     \<lparr>bg_acquire = (\<lambda>s. let (b, w) = e_acquire_slot E (sy_world s) in (b, s\<lparr>sy_world := w\<rparr>)),
      bg_release = (\<lambda>s. s\<lparr>sy_world := e_release_slot E (sy_world s)\<rparr>),
      bg_with_timeout = (\<lambda>d s. s\<lparr>sy_world := e_with_timeout E d (sy_world s)\<rparr>),
      bg_cancel = (\<lambda>s. s\<lparr>sy_world := e_cancel E (sy_world s)\<rparr>)\<rparr>"

definition rdap_provider :: "'w env \<Rightarrow> externals \<Rightarrow> int \<Rightarrow> 'w system provider" where
  "rdap_provider E X retries =
     \<lparr>pv_name = rdap_name,
      pv_supports = (\<lambda>n s. let (b, st, w) = rdap_supports E X n (sy_rdap s, sy_world s)
                           in (b, s\<lparr>sy_rdap := st, sy_world := w\<rparr>)),
      pv_check = (\<lambda>n s. let (r, st, w) = rdap_check E X retries n (sy_rdap s, sy_world s)
                        in (r, s\<lparr>sy_rdap := st, sy_world := w\<rparr>))\<rparr>"

definition whois_provider :: "'w env \<Rightarrow> externals \<Rightarrow> 'w system provider" where
  "whois_provider E X =
     \<lparr>pv_name = whois_name,
      pv_supports = (\<lambda>n s. let (b, st, w) = whois_supports E X n (sy_whois s, sy_world s)
                           in (b, s\<lparr>sy_whois := st, sy_world := w\<rparr>)),
      pv_check = (\<lambda>n s. let (r, st, w) = whois_check E X n (sy_whois s, sy_world s)
                        in (r, s\<lparr>sy_whois := st, sy_world := w\<rparr>))\<rparr>"

definition dns_provider :: "'w env \<Rightarrow> duration \<Rightarrow> 'w system provider" where
  "dns_provider E d =
     \<lparr>pv_name = dns_name,
      pv_supports = (\<lambda>n s. let (b, w) = dns_supports n (sy_world s) in (b, s\<lparr>sy_world := w\<rparr>)),
      pv_check = (\<lambda>n s. let (r, w) = dns_check E d n (sy_world s) in (r, s\<lparr>sy_world := w\<rparr>))\<rparr>"

definition primary_sources :: "config \<Rightarrow> 'w env \<Rightarrow> externals \<Rightarrow> 'w system provider list" where
  "primary_sources c E X =
     rdap_provider E X (cfg_rdap_retries c) # (if cfg_whois_enabled c then [whois_provider E X] else [])"

definition corroborating_sources :: "config \<Rightarrow> 'w env \<Rightarrow> 'w system provider list" where
  "corroborating_sources c E = (if cfg_dns_enabled c then [dns_provider E (cfg_dns_timeout c)] else [])"

definition build_engine :: "config \<Rightarrow> 'w env \<Rightarrow> externals \<Rightarrow> 'w system engine" where
  "build_engine c E X =
     engine_new (system_budget E) (primary_sources c E X) (corroborating_sources c E)
       (cfg_max_concurrency c) (cfg_request_timeout c) (cfg_cache_ttl c)"

text \<open>The state the sources start with; \<open>embedded\<close> is the registry snapshot in the binary.\<close>

definition build_system :: "config \<Rightarrow> externals \<Rightarrow> string \<Rightarrow> 'w \<Rightarrow> 'w system" where
  "build_system c X embedded w =
     \<lparr>sy_rdap = \<lparr>rd_bootstrap = new_bootstrap X embedded (24 * hour),
                 rd_limiter = new_host_limiter
                   \<lparr>lc_rps = cfg_rdap_rps c, lc_burst = \<lfloor>cfg_rdap_rps c * 2\<rfloor>,
                    lc_failure_threshold = 0, lc_open_duration = 0\<rparr>\<rparr>,
      sy_whois = \<lparr>ws_registry = new_server_registry,
                  ws_limiter = new_host_limiter
                    \<lparr>lc_rps = cfg_whois_rps c, lc_burst = 2,
                     lc_failure_threshold = 0, lc_open_duration = 0\<rparr>\<rparr>,
      sy_world = w\<rparr>"

text \<open>The program before its first request: nothing cached, no shared execution.\<close>

definition start_state :: "config \<Rightarrow> externals \<Rightarrow> string \<Rightarrow> 'w \<Rightarrow> 'w system engine_state" where
  "start_state c X embedded w = (new_result_cache, Map.empty, build_system c X embedded w)"

section \<open>The contracts\<close>

lemma provider_fields [simp]:
  "pv_name (rdap_provider E X k) = rdap_name" "pv_name (whois_provider E X) = whois_name"
  "pv_name (dns_provider E d) = dns_name"
  by (simp_all add: rdap_provider_def whois_provider_def dns_provider_def)

lemma provider_checks:
  "fst (pv_check (rdap_provider E X k) n s) = fst (rdap_check E X k n (sy_rdap s, sy_world s))"
  "fst (pv_check (whois_provider E X) n s) = fst (whois_check E X n (sy_whois s, sy_world s))"
  "fst (pv_check (dns_provider E d) n s) = fst (dns_check E d n (sy_world s))"
  by (simp_all add: rdap_provider_def whois_provider_def dns_provider_def split_beta Let_def)

lemma rdap_source: "source_contract rdap_name (pv_check (rdap_provider E X k)) True"
  by unfold_locales (simp_all add: provider_checks rdap.check_coherent)

lemma whois_source: "source_contract whois_name (pv_check (whois_provider E X)) True"
  by unfold_locales (simp_all add: provider_checks whois.check_coherent)

lemma dns_source: "source_contract dns_name (pv_check (dns_provider E d)) False"
  by unfold_locales (auto simp: provider_checks dest: dns.check_coherent dns.check_free)

interpretation wired: source_chain "primary_sources c E X" "corroborating_sources c E" for c E X
  by (rule source_chain.intro)
     (auto simp: primary_sources_def corroborating_sources_def rdap_source whois_source dns_source
       split: if_splits)

lemma engine_sources [simp]:
  "en_primary (build_engine c E X) = primary_sources c E X"
  "en_corroborating (build_engine c E X) = corroborating_sources c E"
  by (simp_all add: build_engine_def engine_new_def)

text \<open>The names of the sources by their role.\<close>

lemma primary_names: "p \<in> set (primary_sources c E X) \<Longrightarrow> pv_name p = rdap_name \<or> pv_name p = whois_name"
  by (auto simp: primary_sources_def split: if_splits)

lemma corroborating_names: "p \<in> set (corroborating_sources c E) \<Longrightarrow> pv_name p = dns_name"
  by (auto simp: corroborating_sources_def split: if_splits)

section \<open>Results by source\<close>

lemma provider_of_primary: "rdap_name \<in> pv_name ` set (primary_sources c E X)"
  by (simp add: primary_sources_def)

lemma sourced_primary:
  assumes "sourced (primary_sources c E X) (corroborating_sources c E) results" and "q \<in> set results"
  shows "pr_provider q \<in> {rdap_name, whois_name, dns_name}"
    and "pr_registration q = RegistrationNotRegistered \<Longrightarrow> pr_provider q \<in> {rdap_name, whois_name}"
    and "coherent (pr_provider q) q"
    and "pr_info q \<noteq> None \<Longrightarrow> pr_provider q \<in> {rdap_name, whois_name}"
proof -
  from assms obtain p where p: "from_source p q"
    "p \<in> set (primary_sources c E X) \<or>
     p \<in> set (corroborating_sources c E) \<and> pr_registration q \<noteq> RegistrationNotRegistered \<and> pr_info q = None"
    unfolding sourced_def by blast
  then show "pr_provider q \<in> {rdap_name, whois_name, dns_name}"
    and "pr_registration q = RegistrationNotRegistered \<Longrightarrow> pr_provider q \<in> {rdap_name, whois_name}"
    and "coherent (pr_provider q) q"
    and "pr_info q \<noteq> None \<Longrightarrow> pr_provider q \<in> {rdap_name, whois_name}"
    using primary_names [of p c E X] corroborating_names [of p c E] by (auto simp: from_source_def)
qed

lemma sourced_whois_enabled:
  assumes "sourced (primary_sources c E X) (corroborating_sources c E) results" and "q \<in> set results"
    and "pr_provider q = whois_name"
  shows "cfg_whois_enabled c"
  using assms by (auto simp: sourced_def from_source_def primary_sources_def corroborating_sources_def split: if_splits dest!: bspec)

text \<open>RDAP and WHOIS never both have a conclusive answer in one check.\<close>

lemma no_double_answer:
  assumes "good_value (primary_sources c E X) (corroborating_sources c E) key r"
    and "says rdap_name st (cr_sources r)" and "st \<noteq> RegistrationUnknown"
    and "says whois_name st2 (cr_sources r)"
  shows "st2 = RegistrationUnknown"
proof -
  let ?prim = "primary_sources c E X"
  from assms(2,4) obtain p q where p: "last_of rdap_name (cr_sources r) = Some p" "pr_registration p = st"
    and q: "last_of whois_name (cr_sources r) = Some q" "pr_registration q = st2"
    by (auto simp: says_def)
  from last_of_Some [OF p(1)] last_of_Some [OF q(1)]
  have in_p: "p \<in> set (cr_sources r)" "pr_provider p = rdap_name"
    and in_q: "q \<in> set (cr_sources r)" "pr_provider q = whois_name" by auto
  have "cfg_whois_enabled c"
    using sourced_whois_enabled in_q assms(1) by (auto simp: good_value_def)
  then have "primary_result ?prim (cr_sources r) p" "primary_result ?prim (cr_sources r) q"
    using in_p in_q by (simp_all add: primary_result_def primary_sources_def)
  moreover have "pr_provider p \<noteq> pr_provider q" using in_p in_q by simp
  ultimately have "pr_registration p = RegistrationUnknown \<or> pr_registration q = RegistrationUnknown"
    using assms(1) unfolding good_value_def first_conclusive_def by blast
  with p(2) q(2) assms(3) show ?thesis by simp
qed

section \<open>Panics\<close>

lemma run_no_panic:
  assumes "p \<in> set (primary_sources c E X @ corroborating_sources c E)" and "cfg_rdap_retries c \<le> 35"
  shows "fst (run en p n s) \<noteq> Panic"
proof -
  have rdap: "fst (rdap_check E X (cfg_rdap_retries c) n t) \<noteq> Panic" for t
    by (rule rdap_check_not_panic [OF assms(2)])
  have whois: "fst (whois_check E X n t) \<noteq> Panic" for t
    using whois_check_no_panic [of E X n t] by auto
  have dns: "fst (dns_check E d n t) \<noteq> Panic" for d t
    using dns_check_ok [of E d n t] by auto
  have "fst (pv_check p n t) \<noteq> Panic" for t
    using assms(1) rdap whois dns
    by (auto simp: primary_sources_def corroborating_sources_def provider_checks split: if_splits)
  then have "pv_check p n t \<noteq> (Panic, u)" for t u by (metis fst_conv)
  then show ?thesis by (auto simp: run_def Let_def split: prod.split bool.split res.split)
qed

lemma engine_never_panics: "cfg_rdap_retries c \<le> 35 \<Longrightarrow> never_panics (build_engine c E X)"
  unfolding never_panics_def engine_sources using run_no_panic by blast

lemmas check_good = wired.engine_check_good [OF engine_sources]
  and many_good = wired.check_many_good [OF engine_sources]

abbreviation good where
  "good c E X st \<equiv> good_state (primary_sources c E X) (corroborating_sources c E) st"

abbreviation run_check where
  "run_check c E X \<equiv> engine_check X (system_now E) (build_engine c E X)"

section \<open>A small configured program\<close>

definition sample_config :: config where
  "sample_config =
     \<lparr>cfg_transport = ''stdio'', cfg_http_addr = '':8080'', cfg_log_level = ''info'',
      cfg_request_timeout = 10 * second, cfg_max_concurrency = 8, cfg_rdap_rps = 5, cfg_rdap_retries = 2,
      cfg_whois_enabled = True, cfg_whois_rps = 1, cfg_dns_enabled = True, cfg_dns_timeout = 3 * second,
      cfg_cache_ttl = \<lparr>ct_available = minute, ct_unavailable = 5 * minute, ct_unknown = 15 * second\<rparr>,
      cfg_healthcheck = False\<rparr>"

definition shop :: name where
  "shop = \<lparr>n_input = ''shop.example.com'', n_ascii = ''shop.example.com'', n_unicode = ''shop.example.com'',
      n_tld = ''com'', n_suffix = ''com'', n_sld = ''example''\<rparr>"

text \<open>An engine whose cache holds an answer about \<open>shop\<close> with the given sources.\<close>

definition cached_state :: "provider_result list \<Rightarrow> script system engine_state" where
  "cached_state results =
     ([''shop.example.com'' \<mapsto> \<lparr>ce_result = assemble shop results 0, ce_expires_at = minute\<rparr>], Map.empty,
      build_system sample_config plain_externals [] idle_script)"

definition free_result :: provider_result where
  "free_result = zero_result\<lparr>pr_provider := rdap_name, pr_registration := RegistrationNotRegistered,
     pr_status := StatusAvailable\<rparr>"

definition delegated_result :: provider_result where
  "delegated_result = zero_result\<lparr>pr_provider := dns_name, pr_registration := RegistrationRegistered,
     pr_status := StatusRegistered\<rparr>"

lemma shop_parse: "parse plain_externals ''shop.example.com'' = Inr shop"
  by (simp add: shop_def plain_parse_example)

lemma sample_sources:
  "primary_sources sample_config E X = [rdap_provider E X 2, whois_provider E X]"
  "corroborating_sources sample_config E = [dns_provider E (3 * second)]"
  by (simp_all add: primary_sources_def corroborating_sources_def sample_config_def)

lemma sample_from:
  "from_source (rdap_provider E X k) free_result" "from_source (dns_provider E (3 * second)) delegated_result"
  by (simp_all add: from_source_def coherent_def free_result_def delegated_result_def zero_result_def)

lemma sample_fields [simp]:
  "pr_registration free_result = RegistrationNotRegistered" "pr_provider free_result = rdap_name"
  "pr_registration delegated_result = RegistrationRegistered" "pr_provider delegated_result = dns_name"
  "pr_info delegated_result = None" "pr_raw free_result = NoRaw" "pr_raw delegated_result = NoRaw"
  by (simp_all add: free_result_def delegated_result_def zero_result_def)

lemma cached_good:
  assumes "results = [free_result] \<or> results = [free_result, delegated_result]"
  shows "good_state (primary_sources sample_config E X) (corroborating_sources sample_config E) (cached_state results)"
proof -
  have "sourced (primary_sources sample_config E X) (corroborating_sources sample_config E) results"
    using assms by (auto simp: sourced_def sample_sources sample_from)
  moreover have "first_conclusive (primary_sources sample_config E X) results"
    using assms by (auto simp: first_conclusive_def primary_result_def sample_sources)
  moreover have "distinct (map pr_provider results)" using assms by auto
  ultimately show ?thesis
    by (simp add: good_state_def cached_state_def good_value_def assemble_def honest_def Let_def shop_def)
qed

lemma cached_run:
  "engine_check plain_externals (system_now script_env) en ks join
     ''shop.example.com'' True (cached_state results) =
   (Ok ((assemble shop results 0)\<lparr>cr_cached := True, cr_domain := ''shop.example.com''\<rparr>), cached_state results)"
  by (simp add: engine_check_def cached_state_def shop_parse cache_get_def system_now_def build_system_def
      idle_script_def minute_def strip_raw_def shop_def)

section \<open>Availability\<close>

text \<open>An \<open>available\<close> answer rests on RDAP or WHOIS.\<close>

lemma answered_confirmed:
  assumes "answered X (primary_sources c E X) (corroborating_sources c E) input r"
    and "cr_availability r = AvailabilityAvailable"
  shows "\<exists>q \<in> set (cr_sources r). pr_registration q = RegistrationNotRegistered \<and>
    pr_provider q \<in> {rdap_name, whois_name} \<and> pr_status q = StatusAvailable"
proof -
  from assms have "\<exists>n :: name. good_value (primary_sources c E X) (corroborating_sources c E) (n_ascii n) r"
    by (cases "parse X input") (auto simp: answered_def)
  then obtain n :: name where good: "good_value (primary_sources c E X) (corroborating_sources c E) (n_ascii n) r" ..
  then have "rs_availability (resolve (cr_sources r)) = AvailabilityAvailable"
    using assms(2) by (simp add: good_value_def honest_def Let_def)
  then obtain q where q: "q \<in> set (cr_sources r)" "pr_registration q = RegistrationNotRegistered"
    using decide_available [of "scan_results (cr_sources r) nothing_found"] last_of_Some
    by (fastforce simp: resolve_def scan_nothing)
  moreover note sourced_primary [of c E X "cr_sources r" q]
  ultimately show ?thesis using good by (auto simp: good_value_def coherent_def)
qed

section \<open>Properties\<close>

text \<open>
  A check answers \<open>available\<close> only when a source in its own list says \<open>not registered\<close>, and that
  source is RDAP or WHOIS: failures, missing sources, DNS and invalid input never make a name
  available, whether the answer is fresh, cached or shared.
\<close>

lemma check_available_confirmed:
  assumes "good c E X st" and "run_check c E X ks join input raw st = (Ok r, st1)"
    and "cr_availability r = AvailabilityAvailable"
  shows "\<exists>q \<in> set (cr_sources r). pr_registration q = RegistrationNotRegistered \<and>
    pr_provider q \<in> {rdap_name, whois_name} \<and> pr_status q = StatusAvailable"
  using check_good [OF assms(1,2)] assms(3) answered_confirmed by blast

text \<open>
  C5: the answers of one check about one name: the verdict is that of the resolver on the listed
  sources, each source is listed once, and what the cache and the shared executions hold is of
  the same kind again.
\<close>

theorem check_answers:
  assumes "good c E X st" and "parse X input = Inr n" and "cfg_rdap_retries c \<le> 35"
  shows "\<exists>r st1. run_check c E X ks join input raw st = (Ok r, st1) \<and> good c E X st1 \<and>
    cr_domain r = input \<and> cr_normalized_domain r = n_ascii n \<and> honest r \<and>
    distinct (map pr_provider (cr_sources r)) \<and> pr_provider ` set (cr_sources r) \<subseteq> {rdap_name, whois_name, dns_name} \<and>
    (\<forall>q \<in> set (cr_sources r). coherent (pr_provider q) q)"
proof -
  obtain r st1 where run: "run_check c E X ks join input raw st = (Ok r, st1)"
    using engine_check_returns [OF engine_never_panics [OF assms(3)]] by blast
  from check_good [OF assms(1) run] assms(2) have "good c E X st1" "cr_domain r = input"
    and good: "good_value (primary_sources c E X) (corroborating_sources c E) (n_ascii n) r"
    by (simp_all add: answered_def)
  moreover from good have src: "sourced (primary_sources c E X) (corroborating_sources c E) (cr_sources r)"
    by (simp add: good_value_def)
  note sourced_primary [OF src]
  ultimately show ?thesis using run by (auto simp: good_value_def)
qed

theorem check_answers_witness:
  "\<exists>r st1. engine_check plain_externals (system_now script_env)
      (build_engine sample_config script_env plain_externals) [] False ''shop.example.com'' False
      (Map.empty, Map.empty, build_system sample_config plain_externals [] idle_script) = (Ok r, st1) \<and>
    cr_normalized_domain r = ''shop.example.com'' \<and> honest r"
proof -
  have k: "cfg_rdap_retries sample_config \<le> 35" by (simp add: sample_config_def)
  show ?thesis
    using check_answers [OF good_state_empty shop_parse k, where E = script_env] by (fastforce simp: shop_def)
qed

text \<open>
  C11: a reported conflict always involves a DNS delegation: RDAP saying that a name is free while
  WHOIS says it is taken never occurs in an answer, because WHOIS is not asked after RDAP answered.
\<close>

theorem check_conflict_is_dns:
  assumes "good c E X st" and "run_check c E X ks join input raw st = (Ok r, st1)" and "cr_conflict r"
    and "parse X input = Inr n"
  shows "says dns_name RegistrationRegistered (cr_sources r) \<and>
    \<not> (says rdap_name RegistrationNotRegistered (cr_sources r) \<and> says whois_name RegistrationRegistered (cr_sources r)) \<and>
    cr_confidence r = ConfidenceLow"
proof -
  from check_good [OF assms(1,2)] assms(4)
  have good: "good_value (primary_sources c E X) (corroborating_sources c E) (n_ascii n) r"
    by (simp add: answered_def)
  then have conf: "rs_conflict (resolve (cr_sources r))" "cr_confidence r = rs_confidence (resolve (cr_sources r))"
    using assms(3) by (simp_all add: good_value_def honest_def Let_def)
  have never: "\<not> (says rdap_name RegistrationNotRegistered (cr_sources r) \<and> says whois_name RegistrationRegistered (cr_sources r))"
    using no_double_answer [OF good] by blast
  moreover have "says dns_name RegistrationRegistered (cr_sources r)"
    using conf(1) never by (simp add: resolve_conflict_cases split: if_splits)
  moreover have "rs_confidence (resolve (cr_sources r)) = ConfidenceLow"
    using decide_conflict conf(1) by (simp add: resolve_def)
  ultimately show ?thesis using conf(2) by simp
qed

theorem check_conflict_is_dns_witness:
  "\<exists>r st1. engine_check plain_externals (system_now script_env)
      (build_engine sample_config script_env plain_externals) [] False ''shop.example.com'' True
      (cached_state [free_result, delegated_result]) = (Ok r, st1) \<and> cr_conflict r \<and>
    says dns_name RegistrationRegistered (cr_sources r)"
proof -
  let ?r = "(assemble shop [free_result, delegated_result] 0)\<lparr>cr_cached := True, cr_domain := ''shop.example.com''\<rparr>"
  have conf: "cr_conflict ?r"
    by (simp add: assemble_def resolve_def scan_step_def nothing_found_def decide_def Let_def)
  from check_conflict_is_dns [OF cached_good cached_run conf shop_parse] cached_run conf show ?thesis by fastforce
qed

text \<open>
  A batch answers every input at its own index, about that input, in whatever order its calls
  take effect, share executions or hit the cache; one invalid or failing input never fails the
  batch.
\<close>

lemma check_many_answers:
  assumes "good c E X st" and "cfg_rdap_retries c \<le> 35" and "mset (map fst jobs) = mset [0..<length inputs]"
  shows "\<exists>rs st1. check_many X (system_now E) (build_engine c E X) jobs inputs raw st = (Ok rs, st1) \<and>
    length rs = length inputs \<and> good c E X st1 \<and>
    (\<forall>i < length inputs. answered X (primary_sources c E X) (corroborating_sources c E) (inputs ! i) (rs ! i))"
proof -
  obtain rs st1 where run: "check_many X (system_now E) (build_engine c E X) jobs inputs raw st = (Ok rs, st1)"
    using check_many_returns [OF engine_never_panics [OF assms(2)]] by blast
  from many_good [OF assms(1) run assms(3)] run show ?thesis by blast
qed

section \<open>Registration details\<close>

lemma first_info_Some: "first_info qs = Some i \<Longrightarrow> \<exists>q \<in> set qs. pr_info q = Some i"
  by (induction qs) (auto split: option.splits)

text \<open>A source with details decides the verdict: the name is taken.\<close>

lemma info_decides:
  assumes "good_value (primary_sources c E X) (corroborating_sources c E) key r"
    and "q \<in> set (cr_sources r)" and "pr_info q = Some i"
  shows "cr_availability r = AvailabilityUnavailable \<and> di_registered i"
proof -
  let ?rs = "cr_sources r"
  have src: "sourced (primary_sources c E X) (corroborating_sources c E) ?rs" and dist: "distinct (map pr_provider ?rs)"
    using assms(1) by (simp_all add: good_value_def)
  from sourced_primary(3) [OF src assms(2)] assms(3)
  have reg: "pr_registration q = RegistrationRegistered" "di_registered i" by (auto simp: coherent_def)
  from sourced_primary(4) [OF src assms(2)] assms(3) have name: "pr_provider q \<in> {rdap_name, whois_name}" by simp
  have last: "last_of (pr_provider q) ?rs = Some q" using last_of_unique [OF dist assms(2)] .
  have "rs_availability (resolve ?rs) = AvailabilityUnavailable"
  proof (cases "pr_provider q = rdap_name")
    case True
    with last reg show ?thesis by (simp add: resolve_def scan_nothing decide_def)
  next
    case False
    with name last reg have w: "says whois_name RegistrationRegistered ?rs" "last_of whois_name ?rs = Some q"
      by (auto simp: says_def)
    have "st = RegistrationUnknown" if "says rdap_name st ?rs" for st
      using no_double_answer [OF assms(1) that _ w(1)] by blast
    then have "last_of rdap_name ?rs = None \<or> (\<exists>p. last_of rdap_name ?rs = Some p \<and> pr_registration p = RegistrationUnknown)"
      by (cases "last_of rdap_name ?rs") (auto simp: says_def)
    with w(2) reg show ?thesis by (auto simp: resolve_def scan_nothing decide_def Let_def)
  qed
  with assms(1) reg(2) show ?thesis by (simp add: good_value_def honest_def Let_def)
qed

text \<open>
  The registration details and the verdict of the same run agree: details of a registered name
  come with \<open>unavailable\<close>, the unregistered placeholder with \<open>available\<close>; an error with anything
  but \<open>available\<close>. The details carry the input as given.
\<close>

lemma info_verdict:
  assumes "parse X input = Inr n"
    and "check_name (system_now E) ks (build_engine c E X) n s = (Ok r, s1)"
  shows "snd (engine_info X (system_now E) (build_engine c E X) ks input s) = s1 \<and>
    (case fst (engine_info X (system_now E) (build_engine c E X) ks input s) of
       Ok info \<Rightarrow> di_domain info = input \<and>
         cr_availability r = (if di_registered info then AvailabilityUnavailable else AvailabilityAvailable)
     | Err e \<Rightarrow> cr_availability r \<noteq> AvailabilityAvailable
     | Panic \<Rightarrow> False)"
proof -
  have good: "good_value (primary_sources c E X) (corroborating_sources c E) (n_ascii n) r"
    using wired.check_name_good [OF engine_sources assms(2)] .
  show ?thesis
  proof (cases "first_info (cr_sources r)")
    case None
    with assms show ?thesis by (simp add: engine_info_def zero_info_def)
  next
    case (Some i)
    with first_info_Some obtain q where "q \<in> set (cr_sources r)" "pr_info q = Some i" by blast
    from info_decides [OF good this] Some assms show ?thesis by (simp add: engine_info_def)
  qed
qed

end
