(* ===== verification/Concurrent.thy ===== *)
theory Concurrent
  imports System
begin

text \<open>
  Concurrent calls of the configured program: the calls of \<open>Engine\<close> as runs of the goroutines of
  \<open>Flights\<close>, and what holds of every run: whose answer a call returns, when it may say \<open>available\<close>,
  how many executions a name has at a time, and that the calls end.
\<close>

section \<open>One call after the other\<close>

text \<open>
  The one-step calls of \<open>Engine\<close> are runs of these goroutines in which nothing else moves: what is
  shown for all runs covers them.
\<close>

lemma set_call_twice [simp]: "set_call i ph (set_call i ph2 b) = set_call i ph b"
  by (simp add: set_call_def)

lemma set_call_fields [simp]:
  "fl_cache (set_call i ph b) = fl_cache b" "fl_shared (set_call i ph b) = fl_shared b"
  "(set_call i ph b)\<lparr>fl_cache := m\<rparr> = set_call i ph (b\<lparr>fl_cache := m\<rparr>)"
  "(set_call i ph b)\<lparr>fl_shared := s\<rparr> = set_call i ph (b\<lparr>fl_shared := s\<rparr>)"
  "fl_calls (set_call i ph b) = (fl_calls b)[i := ph]"
  by (simp_all add: set_call_def)

lemma call_is_set [simp]:
  "call_is (set_call i ph b) i ph2 \<longleftrightarrow> i < length (fl_calls b) \<and> ph2 = ph"
  "call_is (b\<lparr>fl_cache := m\<rparr>) i ph2 = call_is b i ph2" "call_is (b\<lparr>fl_shared := s\<rparr>) i ph2 = call_is b i ph2"
  by (auto simp: call_is_def)

lemma set_call_same: "call_is b i ph \<Longrightarrow> set_call i ph b = b"
  by (auto simp: set_call_def call_is_def)

text \<open>Calls with one context, as those of a batch.\<close>

abbreviation same_caller :: "nat \<Rightarrow> 's \<Rightarrow> 's" where
  "same_caller \<equiv> (\<lambda>_ s. s)"

text \<open>An execution whose states all have the context of its call already is a run of that call.\<close>

lemma check_steps_run_in:
  assumes "check_steps en n (\<lambda>_ _. False) c d" and "call_is b i (Leading n (Running c))"
    and "fl_shared b = ck_shared c" and "P c"
    and "\<And>c d. P c \<Longrightarrow> check_step en n (\<lambda>_ _. False) c d \<Longrightarrow> P d" and "\<And>c. P c \<Longrightarrow> focus i (ck_shared c) = ck_shared c"
  shows "P d \<and> (\<exists>k. calls_run X now en focus reqs b k (set_call i (Leading n (Running d)) (b\<lparr>fl_shared := ck_shared d\<rparr>)))"
  using assms(1)
proof (induction rule: rtranclp_induct)
  case base
  from assms(2,3) have "set_call i (Leading n (Running c)) (b\<lparr>fl_shared := ck_shared c\<rparr>) = b"
    by (cases b) (auto simp: set_call_def call_is_def list_update_same_conv)
  then show ?case using calls_run.refl assms(4) by metis
next
  case (step d e)
  let ?b = "set_call i (Leading n (Running d)) (b\<lparr>fl_shared := ck_shared d\<rparr>)"
  have here: "call_is ?b i (Leading n (Running d))" using assms(2) by (simp add: call_is_def)
  have "d\<lparr>ck_shared := focus i (fl_shared ?b)\<rparr> = d" using assms(6) step(3) by simp
  with step(2) have "check_step en n (\<lambda>_ _. False) (d\<lparr>ck_shared := focus i (fl_shared ?b)\<rparr>) e" by simp
  from call_step.work [where focus = focus, OF here this]
  have "call_step X now en focus reqs ?b (set_call i (Leading n (Running e)) (b\<lparr>fl_shared := ck_shared e\<rparr>))"
    by simp
  moreover have "P e" using assms(5) step(2,3) by blast
  ultimately show ?case using step(3) calls_run.own by metis
qed

lemmas check_steps_run = check_steps_run_in [where P = "\<lambda>_. True" and focus = same_caller, simplified]

lemma calls_run_one: "call_step X now en same_caller reqs b c \<Longrightarrow> \<exists>k. calls_run X now en same_caller reqs b k c"
  using calls_run.own [OF calls_run.refl] by blast

lemma land_alone:
  assumes "i < length calls" and "length calls = length reqs" and "calls ! i = Leading n e"
    and "\<forall>j < length calls. j \<noteq> i \<longrightarrow> \<not> in_flight (n_ascii n) (calls ! j)"
  shows "land reqs (n_ascii n) r calls = calls[i := Answered (answer_request (reqs ! i) r)]"
  using assms by (intro nth_equalityI) (auto simp: land_nth nth_list_update)

text \<open>A call that missed the cache while no other is in flight: its execution, from start to answer.\<close>

lemma lone_execution:
  assumes "check_name now ks en n (fl_shared b) = (Ok v, s1)" and "i < length (fl_calls b)" and "length (fl_calls b) = length reqs"
    and "\<forall>j < length (fl_calls b). \<forall>key. \<not> in_flight key (fl_calls b ! j)"
  defines "m1 \<equiv> cache_put (en_ttl en) (now s1) (n_ascii n) v (fl_cache b)"
  shows "\<exists>k. calls_run X now en same_caller reqs (set_call i (Missed n) b) k
    (set_call i (Answered (answer_request (reqs ! i) v)) (b\<lparr>fl_cache := m1, fl_shared := s1\<rparr>))"
proof -
  let ?at = "\<lambda>ph m s. set_call i ph (b\<lparr>fl_cache := m, fl_shared := s\<rparr>)"
  let ?step = "call_step X now en same_caller reqs" and ?m = "fl_cache b" and ?r = "answer_request (reqs ! i) v"
  obtain c where c: "check_steps en n (\<lambda>_ _. False) (check_start en (fl_shared b)) c" "check_done c"
    "ck_shared c = s1" "v = assemble n (ck_results c) (now s1)"
    using check_name_run [OF assms(1)] by blast
  have free: "\<not> list_ex (leads (n_ascii n)) (fl_calls (set_call i (Missed n) b))"
    using assms(2,4) by (auto simp: list_ex_iff in_set_conv_nth nth_list_update leads_in_flight split: if_splits dest!: leads_in_flight)
  let ?start = "?at (Leading n (Running (check_start en (fl_shared b)))) ?m (fl_shared b)"
  have "?step (set_call i (Missed n) b) ?start"
    using call_step.lead [where b = "set_call i (Missed n) b" and i = i and n = n] free assms(2) by simp
  then obtain j where one: "calls_run X now en same_caller reqs (set_call i (Missed n) b) j ?start" using calls_run_one by blast
  obtain k where two: "calls_run X now en same_caller reqs ?start k (?at (Leading n (Running c)) ?m s1)"
    using check_steps_run [OF c(1), of ?start i X now reqs] assms(2) by (auto simp: c(3) check_start_def)
  have "?step (?at (Leading n (Running c)) ?m s1) (?at (Leading n (Computed v)) ?m s1)"
    using call_step.compute [where b = "?at (Leading n (Running c)) ?m s1" and i = i and n = n and c = c] c(2,4) assms(2) by simp
  moreover have "?step (?at (Leading n (Computed v)) ?m s1) (?at (Leading n (Stored v)) m1 s1)"
    using call_step.store [where b = "?at (Leading n (Computed v)) ?m s1" and i = i and n = n and r = v] assms(2) by (simp add: m1_def)
  moreover have "land reqs (n_ascii n) v (fl_calls (?at (Leading n (Stored v)) m1 s1)) = (fl_calls b)[i := Answered ?r]"
    using land_alone [of i "fl_calls (?at (Leading n (Stored v)) m1 s1)" reqs n "Stored v" v] assms(2-4) by simp
  then have "?step (?at (Leading n (Stored v)) m1 s1) (?at (Answered ?r) m1 s1)"
    using call_step.return [where X = X and now = now and en = en and reqs = reqs and i = i and n = n and r = v
        and b = "?at (Leading n (Stored v)) m1 s1"] assms(2)
    by (simp add: set_call_def call_is_def)
  ultimately have "calls_run X now en same_caller reqs ?start (k + 3) (?at (Answered ?r) m1 s1)"
    using two by (simp add: numeral_3_eq_3) (meson calls_run.own)
  with one show ?thesis by (meson calls_run_append)
qed

lemma engine_check_run:
  assumes "engine_check X now en ks False (rq_input (reqs ! i)) (rq_raw (reqs ! i)) (fl_cache b, fl, fl_shared b) = (Ok r, m1, fl1, s1)"
    and "call_is b i Arrived" and "length (fl_calls b) = length reqs"
    and "\<forall>j < length (fl_calls b). \<forall>key. \<not> in_flight key (fl_calls b ! j)"
  shows "\<exists>k. calls_run X now en same_caller reqs b k (set_call i (Answered r) (b\<lparr>fl_cache := m1, fl_shared := s1\<rparr>))"
proof (cases "parse X (rq_input (reqs ! i))")
  case (Inl e)
  with assms(1) have "r = invalid_result (rq_input (reqs ! i)) e (now (fl_shared b))" "m1 = fl_cache b" "s1 = fl_shared b"
    by (auto simp: engine_check_def)
  then show ?thesis
    using calls_run_one [OF call_step.reject [OF assms(2) Inl]] by simp
next
  case (Inr n)
  obtain got m2 where get: "cache_get (now (fl_shared b)) (n_ascii n) (fl_cache b) = (got, m2)" by fastforce
  show ?thesis
  proof (cases got)
    case (Some c)
    with assms(1) Inr get have "r = answer_request (reqs ! i) c" "m1 = m2" "s1 = fl_shared b"
      by (auto simp: engine_check_def answer_request_def)
    with Some get show ?thesis
      using calls_run_one [OF call_step.hit [where now = now, OF assms(2) Inr get [unfolded Some]]] by simp
  next
    case None
    note missed = call_step.miss [where now = now and en = en, OF assms(2) Inr get [unfolded None]]
    obtain v where v: "check_name now ks en n (fl_shared b) = (Ok v, s1)"
      and r: "r = answer_request (reqs ! i) v" "m1 = cache_put (en_ttl en) (now s1) (n_ascii n) v m2"
      using assms(1) Inr get None
      by (auto simp: engine_check_def answer_request_def split: prod.splits res.splits)
    have here: "i < length (fl_calls b)" using assms(2) by (simp add: call_is_def)
    obtain k where "calls_run X now en same_caller reqs (set_call i (Missed n) (b\<lparr>fl_cache := m2\<rparr>)) k
        (set_call i (Answered r) (b\<lparr>fl_cache := m1, fl_shared := s1\<rparr>))"
      using lone_execution [where b = "b\<lparr>fl_cache := m2\<rparr>" and X = X and reqs = reqs and i = i and now = now and en = en and ks = ks and n = n and v = v and ?s1.0 = s1]
        v here assms(3,4) by (auto simp: r)
    with calls_run_one [OF missed] show ?thesis using calls_run_append by blast
  qed
qed

definition requests_of :: "string list \<Rightarrow> bool \<Rightarrow> request list" where
  "requests_of inputs include_raw = map (\<lambda>input. \<lparr>rq_input = input, rq_raw = include_raw\<rparr>) inputs"

lemma requests_of_nth [simp]:
  "i < length inputs \<Longrightarrow> rq_input (requests_of inputs raw ! i) = inputs ! i"
  "i < length inputs \<Longrightarrow> rq_raw (requests_of inputs raw ! i) = raw"
  "length (requests_of inputs raw) = length inputs"
  by (simp_all add: requests_of_def)

lemma check_jobs_run:
  assumes "check_jobs X now en inputs raw jobs (fl_cache b, fl, fl_shared b) = (Ok answers, m1, fl1, s1)"
    and "\<forall>(i, ks, join) \<in> set jobs. \<not> join \<and> call_is b i Arrived" and "distinct (map fst jobs)"
    and "length (fl_calls b) = length inputs" and "\<forall>j < length inputs. \<forall>key. \<not> in_flight key (fl_calls b ! j)"
  shows "\<exists>k. calls_run X now en same_caller (requests_of inputs raw) b k
    (b\<lparr>fl_cache := m1, fl_shared := s1,
       fl_calls := fold (\<lambda>(i, r) calls. calls[i := Answered r]) answers (fl_calls b)\<rparr>)"
  using assms
proof (induction jobs arbitrary: b fl answers)
  case Nil
  then have "b\<lparr>fl_cache := m1, fl_shared := s1, fl_calls := fold (\<lambda>(i, r) calls. calls[i := Answered r]) answers (fl_calls b)\<rparr> = b"
    by simp
  then show ?case using calls_run.refl by metis
next
  case (Cons job jobs)
  obtain i ks join where job: "job = (i, ks, join)" by (cases job)
  from Cons.prems(2) have here: "\<not> join" "call_is b i Arrived" by (auto simp: job)
  then have i: "i < length inputs" using Cons.prems(4) by (simp add: call_is_def)
  from Cons.prems(1) here(1) obtain r m2 fl2 s2 rs where
    one: "engine_check X now en ks False (inputs ! i) raw (fl_cache b, fl, fl_shared b) = (Ok r, m2, fl2, s2)"
    and rest: "check_jobs X now en inputs raw jobs (m2, fl2, s2) = (Ok rs, m1, fl1, s1)" "answers = (i, r) # rs"
    by (auto simp: job split: prod.splits res.splits)
  let ?b = "set_call i (Answered r) (b\<lparr>fl_cache := m2, fl_shared := s2\<rparr>)"
  obtain k where k: "calls_run X now en same_caller (requests_of inputs raw) b k ?b"
    using engine_check_run [of X now en ks "requests_of inputs raw" i b fl r m2 fl2 s2] one here(2) i Cons.prems(4,5) by auto
  have go: "check_jobs X now en inputs raw jobs (fl_cache ?b, fl2, fl_shared ?b) = (Ok rs, m1, fl1, s1)"
    using rest(1) by simp
  have ready: "\<forall>(j, ks, join) \<in> set jobs. \<not> join \<and> call_is ?b j Arrived"
  proof -
    have other: "call_is ?b j Arrived" if "call_is b j Arrived" "j \<noteq> i" for j
      using that by (simp add: call_is_def)
    have "fst a \<noteq> i" if "a \<in> set jobs" for a using Cons.prems(3) that by (auto simp: job)
    then show ?thesis using Cons.prems(2) other by fastforce
  qed
  have idle: "\<forall>j < length inputs. \<forall>key. \<not> in_flight key (fl_calls ?b ! j)"
    using Cons.prems(4,5) i by (auto simp: nth_list_update)
  have rest_jobs: "distinct (map fst jobs)" "length (fl_calls ?b) = length inputs"
    using Cons.prems(3,4) by (simp_all add: job)
  from Cons.IH [OF go ready rest_jobs idle] obtain l where l: "calls_run X now en same_caller (requests_of inputs raw) ?b l
    (?b\<lparr>fl_cache := m1, fl_shared := s1, fl_calls := fold (\<lambda>(i, r) calls. calls[i := Answered r]) rs (fl_calls ?b)\<rparr>)" ..
  have "?b\<lparr>fl_cache := m1, fl_shared := s1, fl_calls := fold (\<lambda>(i, r) calls. calls[i := Answered r]) rs (fl_calls ?b)\<rparr> =
      b\<lparr>fl_cache := m1, fl_shared := s1, fl_calls := fold (\<lambda>(i, r) calls. calls[i := Answered r]) answers (fl_calls b)\<rparr>"
    by (simp add: rest(2) set_call_def)
  note done_calls = this
  show ?case using calls_run_append [OF l k] unfolding done_calls ..
qed

lemma check_jobs_keys:
  "check_jobs X now en inputs raw jobs st = (Ok answers, st1) \<Longrightarrow> map fst answers = map fst jobs"
  by (induction jobs arbitrary: st answers) (auto split: prod.splits res.splits)

lemma fold_answers_nth:
  assumes "distinct (map fst answers)" and "\<forall>a \<in> set answers. fst a < length calls" and "j < length calls"
  shows "fold (\<lambda>(i, r) calls. calls[i := Answered r]) answers calls ! j =
    (case map_of answers j of Some r \<Rightarrow> Answered r | None \<Rightarrow> calls ! j)"
  using assms
proof (induction answers arbitrary: calls)
  case (Cons a answers)
  obtain i r where a: "a = (i, r)" by (cases a)
  from Cons.prems(1) have "map_of answers i = None" by (simp add: a map_of_eq_None_iff)
  with Cons.prems Cons.IH [of "calls[i := Answered r]"] show ?case
    by (cases "j = i") (simp_all add: a split: option.split)
qed simp

lemma length_fold_answers [simp]:
  "length (fold (\<lambda>(i, r) calls. calls[i := Answered r]) answers calls) = length calls"
  by (induction answers arbitrary: calls) auto

text \<open>The answers in the order of the inputs are what the calls end with.\<close>

lemma sorted_answers:
  assumes "mset (map fst answers) = mset [0..<n]" and "length calls = n"
  shows "fold (\<lambda>(i, r) calls. calls[i := Answered r]) answers calls = map Answered (map snd (sort_key fst answers))"
proof (rule nth_equalityI)
  let ?a = "sort_key fst answers"
  have "mset (map fst ?a) = mset [0..<n]" using assms(1) by (simp add: mset_map)
  then have keys: "map fst ?a = [0..<n]" by (metis properties_for_sort sorted_sort_key sort_upt)
  then have len: "length ?a = n" by (metis length_map length_upt minus_nat.diff_0)
  then show "length (fold (\<lambda>(i, r) calls. calls[i := Answered r]) answers calls) = length (map Answered (map snd ?a))"
    using assms(2) by simp
  have dist: "distinct (map fst answers)" using assms(1) by (metis distinct_upt mset_eq_imp_distinct_iff)
  have range: "\<forall>a \<in> set answers. fst a < length calls"
    using assms by (metis atLeastLessThan_iff atLeastLessThan_upt image_eqI list.set_map set_mset_mset)
  fix j
  assume "j < length (fold (\<lambda>(i, r) calls. calls[i := Answered r]) answers calls)"
  then have j: "j < n" using assms(2) by simp
  have "fst (?a ! j) = j" using keys j len by (metis add_0 nth_map nth_upt diff_zero)
  moreover have "?a ! j \<in> set answers" using nth_mem [of j ?a] j len by simp
  ultimately have "map_of answers j = Some (snd (?a ! j))" using dist by (metis map_of_is_SomeI prod.collapse)
  then show "fold (\<lambda>(i, r) calls. calls[i := Answered r]) answers calls ! j = map Answered (map snd ?a) ! j"
    using fold_answers_nth [OF dist range] assms(2) j len by simp
qed

section \<open>Properties\<close>

lemma good_cache: "good c E X (m, fl, s) \<Longrightarrow> cache_ok (primary_sources c E X) (corroborating_sources c E) m"
  by (simp add: good_state_def cache_ok_def)

lemma good_flights: "cache_ok (primary_sources c E X) (corroborating_sources c E) m \<Longrightarrow> good c E X (m, Map.empty, s)"
  by (simp add: good_state_def cache_ok_def)

lemma calls_start_inv: "good c E X (m, fl, s) \<Longrightarrow> calls_inv (primary_sources c E X) (corroborating_sources c E) X reqs (flights_start reqs m s)"
  by (intro wired.calls_inv_start good_cache)

lemma calls_start_calm: "calm (flights_start reqs m s)"
  by (auto simp: calm_def flights_start_def)

abbreviation calls where
  "calls c E X focus reqs \<equiv> calls_run X (system_now E) (build_engine c E X) focus reqs"

lemma source_number: "length (en_primary (build_engine c E X)) + length (en_corroborating (build_engine c E X)) \<le> 3"
  by (simp add: primary_sources_def corroborating_sources_def)

interpretation program: terminating_steps "call_step X (system_now E) (build_engine c E X) focus reqs"
    "\<lambda>b. calls_inv (primary_sources c E X) (corroborating_sources c E) X reqs b \<and> calm b \<and> cfg_rdap_retries c \<le> 35"
    "calls_left 3" all_answered for c E X focus reqs
proof unfold_locales
  fix b d
  assume step: "call_step X (system_now E) (build_engine c E X) focus reqs b d"
    and b: "calls_inv (primary_sources c E X) (corroborating_sources c E) X reqs b \<and> calm b \<and> cfg_rdap_retries c \<le> 35"
  then show "calls_inv (primary_sources c E X) (corroborating_sources c E) X reqs d \<and> calm d \<and> cfg_rdap_retries c \<le> 35"
    using wired.call_step_inv [OF step _ engine_sources] wired.call_step_calm [OF step _ _ engine_never_panics engine_sources] by blast
  show "calls_left 3 d < calls_left 3 b"
    using call_step_left [OF step _ source_number] b by (simp add: calls_inv_def)
qed (use wired.call_progress in blast)

text \<open>
  C1: the promise of the program, for any number of concurrent calls: \<open>available\<close> is answered only on
  the word of RDAP or WHOIS, whose result \<open>not registered\<close> is among the sources of the answer; failures,
  missing sources, DNS, invalid input, the cache and shared executions never make a name available.
\<close>

theorem concurrent_available_confirmed:
  assumes "good c E X (m, Map.empty, s)" and "calls c E X focus reqs (flights_start reqs m s) k b"
    and "i < length reqs" and "fl_calls b ! i = Answered r" and "cr_availability r = AvailabilityAvailable"
  shows "\<exists>q \<in> set (cr_sources r). pr_registration q = RegistrationNotRegistered \<and>
    pr_provider q \<in> {rdap_name, whois_name} \<and> pr_status q = StatusAvailable"
proof -
  have "calls_inv (primary_sources c E X) (corroborating_sources c E) X reqs b"
    using wired.calls_run_inv [OF assms(2) calls_start_inv [OF assms(1)]] by simp
  with assms(3,4) have "answered X (primary_sources c E X) (corroborating_sources c E) (rq_input (reqs ! i)) r"
    by (auto simp: calls_inv_def dest: spec [of _ i])
  then show ?thesis using assms(5) by (rule answered_confirmed)
qed

text \<open>
  C3: any number of concurrent calls, however their goroutines, the executions they share and the
  purges of the cache interleave: what a call returns is about its own input, with a verdict that is
  the resolver's on the sources it lists; the cache holds such answers only.
\<close>

theorem concurrent_calls_answered:
  assumes "good c E X (m, Map.empty, s)" and "calls c E X focus reqs (flights_start reqs m s) k b"
  shows "length (fl_calls b) = length reqs \<and> good c E X (fl_cache b, Map.empty, fl_shared b) \<and>
    (\<forall>i < length reqs. \<forall>r. fl_calls b ! i = Answered r \<longrightarrow>
       answered X (primary_sources c E X) (corroborating_sources c E) (rq_input (reqs ! i)) r)"
proof -
  have inv: "calls_inv (primary_sources c E X) (corroborating_sources c E) X reqs b"
    using wired.calls_run_inv [OF assms(2) calls_start_inv [OF assms(1)]] by simp
  then have "good c E X (fl_cache b, Map.empty, fl_shared b)"
    by (intro good_flights) (simp add: calls_inv_def)
  moreover have "answered X (primary_sources c E X) (corroborating_sources c E) (rq_input (reqs ! i)) r"
    if "i < length reqs" "fl_calls b ! i = Answered r" for i r
    using inv that by (auto simp: calls_inv_def dest: spec [of _ i])
  ultimately show ?thesis using inv by (simp add: calls_inv_def)
qed

text \<open>
  No two calls ever execute the same name at the same time, and a call that waits always
  waits for one that executes.
\<close>

lemma concurrent_single_flight:
  assumes "good c E X (m, Map.empty, s)" and "calls c E X focus reqs (flights_start reqs m s) k b"
  shows "(\<forall>i < length reqs. \<forall>j < length reqs. \<forall>key.
      leads key (fl_calls b ! i) \<and> leads key (fl_calls b ! j) \<longrightarrow> i = j) \<and>
    (\<forall>i < length reqs. \<forall>n. fl_calls b ! i = Joined n \<longrightarrow> (\<exists>j < length reqs. leads (n_ascii n) (fl_calls b ! j)))"
proof -
  have inv: "calls_inv (primary_sources c E X) (corroborating_sources c E) X reqs b"
    using wired.calls_run_inv [OF assms(2) calls_start_inv [OF assms(1)]] by simp
  then have one: "one_leader (fl_calls b)" and len: "length (fl_calls b) = length reqs"
    by (simp_all add: calls_inv_def)
  have "\<exists>j < length reqs. leads (n_ascii n) (fl_calls b ! j)" if "i < length reqs" "fl_calls b ! i = Joined n" for i n
    using one that len unfolding one_leader_def by (metis in_set_conv_nth)
  with one len show ?thesis unfolding one_leader_def by metis
qed

text \<open>
  C4: concurrent calls end: together they never take more than eight steps each, a run in which no call
  can move has answered all of them, and from every point of a run they can be brought to their answers.
\<close>

theorem concurrent_calls_end:
  assumes "good c E X (m, Map.empty, s)" and "cfg_rdap_retries c \<le> 35"
    and "calls c E X focus reqs (flights_start reqs m s) k b"
  shows "k \<le> 8 * length reqs \<and>
    ((\<nexists>d. call_step X (system_now E) (build_engine c E X) focus reqs b d) \<longrightarrow> all_answered b) \<and>
    (\<exists>l d. calls c E X focus reqs (flights_start reqs m s) (k + l) d \<and> all_answered d)"
proof -
  let ?en = "build_engine c E X"
  let ?n = "length (en_primary ?en) + length (en_corroborating ?en)"
  have "calls_left ?n (flights_start reqs m s) = length reqs * (?n + 5)"
    by (simp add: calls_left_def flights_start_def sum_list_triv comp_def)
  moreover have "length reqs * (?n + 5) \<le> length reqs * 8" using source_number by (intro mult_le_mono) simp_all
  moreover have "k + calls_left ?n b \<le> calls_left ?n (flights_start reqs m s)"
    using calls_run_left [OF assms(3)] by (simp add: flights_start_def)
  ultimately have bound: "k \<le> 8 * length reqs" by linarith
  have inv: "calls_inv (primary_sources c E X) (corroborating_sources c E) X reqs b \<and> calm b \<and> cfg_rdap_retries c \<le> 35"
    using wired.calls_run_inv [OF assms(3) calls_start_inv [OF assms(1)]] assms(2)
      wired.calls_run_calm [OF assms(3) calls_start_inv [OF assms(1)] calls_start_calm engine_never_panics [OF assms(2)]]
    by simp
  obtain d where "(call_step X (system_now E) ?en focus reqs)\<^sup>*\<^sup>* b d" "all_answered d"
    using program.completes [OF inv] by blast
  then obtain l where "calls c E X focus reqs b l d" "all_answered d" using calls_run_steps by blast
  with bound calls_run_append [OF _ assms(3)] program.stuck_ended [OF inv] show ?thesis by blast
qed


section \<open>Examples\<close>

definition twice :: "request list" where
  "twice = requests_of [''shop.example.com'', ''shop.example.com''] False"

abbreviation idle_start :: "script system" where
  "idle_start \<equiv> build_system sample_config plain_externals [] idle_script"

abbreviation twice_run where
  "twice_run \<equiv> calls sample_config script_env plain_externals same_caller twice (flights_start twice Map.empty idle_start)"

lemma sample_retries: "cfg_rdap_retries sample_config \<le> 35"
  by (simp add: sample_config_def)

lemma twice_ends: "\<exists>k b. twice_run k b \<and> all_answered b"
proof -
  let ?b = "flights_start twice Map.empty idle_start"
  have "calls_inv (primary_sources sample_config script_env plain_externals) (corroborating_sources sample_config script_env)
      plain_externals twice ?b"
    by (rule calls_start_inv [OF good_state_empty])
  with calls_start_calm sample_retries program.completes calls_run_steps show ?thesis by meson
qed

lemma length_twice: "length twice = 2"
  by (simp add: twice_def)

theorem concurrent_calls_answered_witness:
  "\<exists>k b. twice_run k b \<and> all_answered b \<and> length (fl_calls b) = 2"
proof -
  obtain k b where "twice_run k b" "all_answered b" using twice_ends by blast
  with concurrent_calls_answered [OF good_state_empty this(1)] length_twice show ?thesis by metis
qed

theorem concurrent_calls_end_witness: "\<exists>k b. twice_run k b \<and> all_answered b \<and> k \<le> 16"
proof -
  obtain k b where run: "twice_run k b" "all_answered b" using twice_ends by blast
  with concurrent_calls_end [OF good_state_empty sample_retries run(1)] show ?thesis
    unfolding length_twice by auto
qed


theorem concurrent_available_confirmed_witness:
  "\<exists>k b r. calls sample_config script_env plain_externals same_caller twice
      (flights_start twice [''shop.example.com'' \<mapsto> \<lparr>ce_result = assemble shop [free_result] 0, ce_expires_at = minute\<rparr>] idle_start) k b \<and>
    fl_calls b ! 0 = Answered r \<and> cr_availability r = AvailabilityAvailable \<and>
    (\<exists>q \<in> set (cr_sources r). pr_registration q = RegistrationNotRegistered)"
proof -
  let ?m = "[''shop.example.com'' \<mapsto> \<lparr>ce_result = assemble shop [free_result] 0, ce_expires_at = minute\<rparr>]"
  let ?b = "flights_start twice ?m idle_start"
  let ?hit = "(assemble shop [free_result] 0)\<lparr>cr_cached := True\<rparr>"
  let ?r = "answer_request (twice ! 0) ?hit"
  have good: "good sample_config script_env plain_externals (?m, Map.empty, idle_start)"
    using cached_good [of "[free_result]"] by (simp add: cached_state_def)
  have here: "call_is ?b 0 Arrived" by (simp add: call_is_def flights_start_def twice_def requests_of_def)
  have parsed: "parse plain_externals (rq_input (twice ! 0)) = Inr shop" by (simp add: twice_def shop_parse)
  have get: "cache_get (system_now script_env (fl_shared ?b)) (n_ascii shop) (fl_cache ?b) = (Some ?hit, ?m)"
    by (simp add: flights_start_def cache_get_def shop_def system_now_def build_system_def idle_script_def minute_def)
  have run: "calls sample_config script_env plain_externals same_caller twice ?b 1 (set_call 0 (Answered ?r) (?b\<lparr>fl_cache := ?m\<rparr>))"
    using calls_run.own [OF calls_run.refl call_step.hit [where now = "system_now script_env", OF here parsed get]] by simp
  have done_call: "fl_calls (set_call 0 (Answered ?r) (?b\<lparr>fl_cache := ?m\<rparr>)) ! 0 = Answered ?r"
    using here by (simp add: call_is_def)
  have av: "cr_availability ?r = AvailabilityAvailable"
    by (simp add: answer_request_def strip_raw_def assemble_def resolve_def scan_step_def nothing_found_def decide_def Let_def)
  have "0 < length twice" by (simp add: twice_def)
  from concurrent_available_confirmed [OF good run this done_call av] run done_call av show ?thesis by blast
qed

text \<open>
  C38: the shared execution does not cover the time between the cache lookup and \<^theory_text>\<open>group.Do\<close>: of two
  calls about the same name, the second can start an execution of its own although the first has
  returned and its fresh answer is in the cache.
\<close>

theorem duplicate_call_runs_again:
  "\<exists>k b r. twice_run k b \<and> fl_calls b ! 0 = Answered r \<and> leads ''shop.example.com'' (fl_calls b ! 1) \<and>
     fst (cache_get (system_now script_env (fl_shared b)) ''shop.example.com'' (fl_cache b)) \<noteq> None"
proof -
  let ?X = plain_externals and ?now = "system_now script_env :: script system \<Rightarrow> time"
  let ?en = "build_engine sample_config script_env plain_externals"
  let ?b = "flights_start twice Map.empty idle_start"
  have here: "call_is ?b 1 Arrived" by (simp add: call_is_def flights_start_def twice_def requests_of_def)
  have parsed: "parse ?X (rq_input (twice ! i)) = Inr shop" "rq_raw (twice ! i) = False" if "i < 2" for i
    using that by (auto simp: twice_def shop_parse less_2_cases_iff)
  have none: "cache_get (?now (fl_shared ?b)) (n_ascii shop) (fl_cache ?b) = (None, Map.empty)"
    by (simp add: flights_start_def cache_get_def)
  let ?b1 = "set_call 1 (Missed shop) (?b\<lparr>fl_cache := Map.empty\<rparr>)"
  have one: "twice_run 1 ?b1"
    using calls_run.own [OF calls_run.refl call_step.miss [where now = ?now, OF here parsed(1) none]] by simp
  obtain r m1 fl1 s1 where check: "engine_check ?X ?now ?en [] False (rq_input (twice ! 0)) (rq_raw (twice ! 0))
      (Map.empty, Map.empty, idle_start) = (Ok r, m1, fl1, s1)"
    using engine_check_returns [OF engine_never_panics [OF sample_retries]] by (metis prod_cases3)
  let ?b2 = "set_call 0 (Answered r) (?b1\<lparr>fl_cache := m1, fl_shared := s1\<rparr>)"
  have calls1: "fl_calls ?b1 = [Arrived, Missed shop]" by (simp add: flights_start_def twice_def requests_of_def)
  obtain k where two: "calls sample_config script_env ?X same_caller twice ?b1 k ?b2"
    using engine_check_run [of ?X ?now ?en "[]" twice 0 ?b1 Map.empty r m1 fl1 s1] check calls1
    by (auto simp: call_is_def flights_start_def twice_def less_Suc_eq)
  have calls2: "fl_calls ?b2 = [Answered r, Missed shop]" using calls1 by simp
  have "call_step ?X ?now ?en same_caller twice ?b2 (set_call 1 (Leading shop (Running (check_start ?en (fl_shared ?b2)))) ?b2)"
    using calls2 by (intro call_step.lead) (simp_all add: call_is_def)
  note three = calls_run.own [OF calls_run_append [OF two one] this]
  obtain v where v: "m1 = cache_put (en_ttl ?en) (?now s1) (n_ascii shop) v Map.empty"
    using check parsed [of 0] by (auto simp: engine_check_def cache_get_def split: prod.splits res.splits)
  have life: "0 < lifetime (en_ttl ?en) a" for a
    by (cases a) (simp_all add: lifetime_def build_engine_def engine_new_def sample_config_def const_defs)
  have hit: "fst (cache_get (?now s1) ''shop.example.com'' m1) \<noteq> None"
    using life [of "cr_availability v"] by (simp add: v cache_put_def cache_get_def shop_def Let_def)
  show ?thesis
    using three hit calls2
    by (intro exI [of _ "Suc (1 + k)"] exI [of _ r] exI conjI) (auto simp: shop_def)
qed

end
