(* ===== verification/Slots.thy ===== *)
theory Slots
  imports Flights
begin

text \<open>
  The concurrency budget of \<^theory_text>\<open>run\<close> in \<^theory_text>\<open>internal/engine/engine.go\<close>: a buffered channel with as many
  places as queries may run at once. Sending takes a place and blocks while there is none, unless the
  context is done; the deferred receive gives it back. \<open>Engine\<close> leaves the two operations to its
  budget; here they are the steps of any number of provider calls on one channel.
\<close>

datatype worker = Waiting | Holding | Finished | GaveUp

record slots =
  sl_capacity :: nat
  sl_used :: nat
  sl_workers :: "worker list"

definition slots_start :: "'s engine \<Rightarrow> nat \<Rightarrow> slots" where
  "slots_start en calls =
     \<lparr>sl_capacity = nat (en_max_concurrency en), sl_used = 0, sl_workers = replicate calls Waiting\<rparr>"

definition worker_is :: "slots \<Rightarrow> nat \<Rightarrow> worker \<Rightarrow> bool" where
  "worker_is s i w = (i < length (sl_workers s) \<and> sl_workers s ! i = w)"

definition set_worker :: "nat \<Rightarrow> worker \<Rightarrow> slots \<Rightarrow> slots" where
  "set_worker i w s = s\<lparr>sl_workers := (sl_workers s)[i := w]\<rparr>"

text \<open>
  The two cases of the \<^theory_text>\<open>select\<close>, and the return of a call that holds a place. \<open>cancelled\<close> tells whose
  context is done.
\<close>

inductive slot_step :: "(nat \<Rightarrow> bool) \<Rightarrow> slots \<Rightarrow> slots \<Rightarrow> bool" for cancelled where
  send: "worker_is s i Waiting \<Longrightarrow> sl_used s < sl_capacity s \<Longrightarrow>
    slot_step cancelled s (set_worker i Holding (s\<lparr>sl_used := sl_used s + 1\<rparr>))"
| give_up: "worker_is s i Waiting \<Longrightarrow> cancelled i \<Longrightarrow> slot_step cancelled s (set_worker i GaveUp s)"
| receive: "worker_is s i Holding \<Longrightarrow>
    slot_step cancelled s (set_worker i Finished (s\<lparr>sl_used := sl_used s - 1\<rparr>))"

inductive_cases slot_stepE: "slot_step cancelled s t"

abbreviation slot_steps where
  "slot_steps cancelled \<equiv> (slot_step cancelled)\<^sup>*\<^sup>*"

abbreviation holding :: "slots \<Rightarrow> nat" where
  "holding s \<equiv> count_list (sl_workers s) Holding"

definition slots_done :: "slots \<Rightarrow> bool" where
  "slots_done s = list_all (\<lambda>w. w = Finished \<or> w = GaveUp) (sl_workers s)"

section \<open>The channel counts the calls that hold a place\<close>

definition slots_inv :: "slots \<Rightarrow> bool" where
  "slots_inv s = (sl_used s = holding s \<and> sl_used s \<le> sl_capacity s)"

lemma count_list_update:
  "i < length xs \<Longrightarrow> count_list (xs[i := y]) x + (if xs ! i = x then 1 else 0) =
     count_list xs x + (if y = x then 1 else 0)"
  using length_filter_update [of i xs "\<lambda>z. x = z" y] by (auto simp: count_list_eq_length_filter split: if_splits)

lemma slots_inv_start: "slots_inv (slots_start en calls)"
  by (simp add: slots_inv_def slots_start_def)

lemma slot_step_inv:
  assumes "slot_step cancelled s t" and "slots_inv s"
  shows "slots_inv t \<and> sl_capacity t = sl_capacity s \<and> length (sl_workers t) = length (sl_workers s)"
  using assms(1)
proof cases
  case (send i)
  with assms(2) count_list_update [of i "sl_workers s" Holding Holding] show ?thesis
    by (simp add: slots_inv_def set_worker_def worker_is_def)
next
  case (give_up i)
  with assms(2) count_list_update [of i "sl_workers s" GaveUp Holding] show ?thesis
    by (simp add: slots_inv_def set_worker_def worker_is_def)
next
  case (receive i)
  with assms(2) count_list_update [of i "sl_workers s" Finished Holding] show ?thesis
    by (auto simp: slots_inv_def set_worker_def worker_is_def)
qed

lemma slot_steps_inv:
  "slot_steps cancelled s t \<Longrightarrow> slots_inv s \<Longrightarrow>
   slots_inv t \<and> sl_capacity t = sl_capacity s \<and> length (sl_workers t) = length (sl_workers s)"
  by (induction rule: rtranclp_induct) (auto dest: slot_step_inv)

section \<open>Nobody waits for ever\<close>

fun worker_left :: "worker \<Rightarrow> nat" where
  "worker_left Waiting = 2"
| "worker_left Holding = 1"
| "worker_left Finished = 0"
| "worker_left GaveUp = 0"

definition slots_left :: "slots \<Rightarrow> nat" where
  "slots_left s = sum_list (map worker_left (sl_workers s))"

lemma slots_left_set:
  "worker_is s i v \<Longrightarrow> worker_left w < worker_left v \<Longrightarrow> slots_left (set_worker i w (s\<lparr>sl_used := k\<rparr>)) < slots_left s"
  unfolding slots_left_def
  by (rule sum_list_less [where i = i]) (auto simp: set_worker_def worker_is_def nth_list_update)

lemma slot_step_left: "slot_step cancelled s t \<Longrightarrow> slots_left t < slots_left s"
proof (erule slot_stepE)
  fix i
  assume "t = set_worker i GaveUp s" "worker_is s i Waiting"
  with slots_left_set [of s i Waiting GaveUp "sl_used s"] show ?thesis by simp
qed (simp_all add: slots_left_set)

lemma slot_progress:
  assumes "slots_inv s" and "0 < sl_capacity s" and "\<not> slots_done s"
  shows "\<exists>t. slot_step cancelled s t"
proof (cases "\<exists>i. worker_is s i Holding")
  case True
  then show ?thesis by (auto intro: slot_step.receive)
next
  case False
  then have "Holding \<notin> set (sl_workers s)" by (auto simp: worker_is_def in_set_conv_nth)
  then have free: "sl_used s < sl_capacity s" using assms(1,2) by (simp add: slots_inv_def count_list_0_iff)
  from assms(3) obtain i where "i < length (sl_workers s)" "sl_workers s ! i \<noteq> Finished" "sl_workers s ! i \<noteq> GaveUp"
    by (auto simp: slots_done_def list_all_length)
  with False have "worker_is s i Waiting" by (cases "sl_workers s ! i") (auto simp: worker_is_def)
  with free show ?thesis by (auto intro: slot_step.send)
qed

interpretation places: terminating_steps "slot_step cancelled" "\<lambda>s. slots_inv s \<and> 0 < sl_capacity s" slots_left slots_done
  for cancelled
  by unfold_locales (auto dest: slot_step_inv slot_step_left intro: slot_progress)

section \<open>Properties\<close>

text \<open>
  C16: the sources are never asked by more calls at once than the configured maximum (8 when it is not
  positive), the channel never loses a place, and whatever the calls have done so far, all of them
  can still end; then every place is free again.
\<close>

theorem upstream_calls_bounded:
  assumes "slot_steps cancelled (slots_start (engine_new budget prim corr n timeout ttl) calls) s"
  shows "holding s \<le> (if n \<le> 0 then 8 else nat n) \<and> sl_used s = holding s \<and>
    (\<exists>t. slot_steps cancelled s t \<and> slots_done t \<and> sl_used t = 0)"
proof -
  let ?s = "slots_start (engine_new budget prim corr n timeout ttl) calls"
  have cap: "sl_capacity ?s = (if n \<le> 0 then 8 else nat n)" by (simp add: slots_start_def engine_new_def)
  from slot_steps_inv [OF assms slots_inv_start] have inv: "slots_inv s" "sl_capacity s = sl_capacity ?s" by auto
  with cap have "0 < sl_capacity s" by simp
  with inv(1) places.completes obtain t where t: "slot_steps cancelled s t" "slots_done t" "slots_inv t" by blast
  moreover have "Holding \<notin> set (sl_workers t)" using t(2) by (auto simp: slots_done_def list_all_iff)
  ultimately have "sl_used t = 0" by (simp add: slots_inv_def count_list_0_iff)
  with t inv cap show ?thesis by (auto simp: slots_inv_def)
qed

theorem upstream_calls_bounded_witness:
  "\<exists>s. slot_steps (\<lambda>_. False) (slots_start (engine_new \<lparr>bg_acquire = (\<lambda>s. (True, s)), bg_release = id,
      bg_with_timeout = (\<lambda>d s. s), bg_cancel = id\<rparr> [] [] 1 0 \<lparr>ct_available = 0, ct_unavailable = 0, ct_unknown = 0\<rparr> :: unit engine) 2) s \<and>
    holding s = 1 \<and> (\<exists>t. slot_steps (\<lambda>_. False) s t \<and> sl_used t = 0)"
proof -
  let ?e = "engine_new \<lparr>bg_acquire = (\<lambda>s. (True, s)), bg_release = id,
      bg_with_timeout = (\<lambda>d s. s), bg_cancel = id\<rparr> [] [] 1 0 \<lparr>ct_available = 0, ct_unavailable = 0, ct_unknown = 0\<rparr> :: unit engine"
  let ?s = "slots_start ?e 2"
  have "slot_step (\<lambda>_. False) ?s (set_worker 0 Holding (?s\<lparr>sl_used := sl_used ?s + 1\<rparr>))"
    by (rule slot_step.send) (simp_all add: worker_is_def slots_start_def engine_new_def numeral_2_eq_2)
  then have run: "slot_steps (\<lambda>_. False) ?s (set_worker 0 Holding (?s\<lparr>sl_used := sl_used ?s + 1\<rparr>))" ..
  have "holding (set_worker 0 Holding (?s\<lparr>sl_used := sl_used ?s + 1\<rparr>)) = 1"
    by (simp add: set_worker_def slots_start_def numeral_2_eq_2)
  with run upstream_calls_bounded [OF run] show ?thesis by blast
qed

end
