(* ===== verification/Suggest.thy ===== *)
theory Suggest
  imports Engine "HOL-Library.Product_Lexorder"
begin

text \<open>
  \<^theory_text>\<open>internal/engine/suggest.go\<close>: expanding base names into candidates, ranking them, and checking
  a bounded number of them. A locale states what a stable sort needs of the comparison; the code's
  \<open>less\<close> interprets it.
\<close>

record suggest_request =
  sg_names :: "string list"
  sg_tlds :: "string list"
  sg_prefixes :: "string list"
  sg_suffixes :: "string list"
  sg_hyphenate :: bool
  sg_tld_hacks :: bool
  sg_max_candidates :: int
  sg_only_available :: bool
  sg_limit :: int

record suggest_result =
  su_results :: "check_result list"
  su_generated :: nat
  su_checked :: nat
  su_truncated :: bool

record candidate =
  cd_domain :: string
  cd_tld_rank :: nat
  cd_exact_base :: bool
  cd_hyphenated :: bool

definition less_candidate :: "candidate \<Rightarrow> candidate \<Rightarrow> bool" where
  "less_candidate a b =
     (if cd_tld_rank a \<noteq> cd_tld_rank b then cd_tld_rank a < cd_tld_rank b
      else if cd_exact_base a \<noteq> cd_exact_base b then cd_exact_base a
      else if cd_hyphenated a \<noteq> cd_hyphenated b then cd_hyphenated b
      else if length (cd_domain a) \<noteq> length (cd_domain b) then length (cd_domain a) < length (cd_domain b)
      else cd_domain a < cd_domain b)"

section \<open>Expansion\<close>

definition normalize_label :: "externals \<Rightarrow> string \<Rightarrow> string" where
  "normalize_label X input =
     (let label = lower X (trim_space input);
          replaced = concat (map (\<lambda>c. if c = CHR '' '' then [] else if c = CHR ''_'' then ''-''
                                      else if c = CHR ''.'' then [] else [c]) label)
      in trim_char (CHR ''-'') replaced)"

fun collect_tlds :: "externals \<Rightarrow> string list \<Rightarrow> string list \<Rightarrow> string list" where
  "collect_tlds X [] tlds = tlds"
| "collect_tlds X (raw # raws) tlds =
     (case normalize_tld X raw of
        Inl e \<Rightarrow> collect_tlds X raws tlds
      | Inr tld \<Rightarrow> collect_tlds X raws (if tld \<in> set tlds then tlds else tlds @ [tld]))"

text \<open>The closure \<open>add\<close>; \<open>seen\<close> is the map of the domains already listed.\<close>

type_synonym listing = "string set \<times> candidate list"

definition add_candidate ::
  "externals \<Rightarrow> string \<Rightarrow> string \<Rightarrow> nat \<Rightarrow> bool \<Rightarrow> bool \<Rightarrow> listing \<Rightarrow> listing" where
  "add_candidate X label tld rank exact hyphenated lst =
     (let (seen, candidates) = lst
      in case parse X (label @ ''.'' @ tld) of
        Inl e \<Rightarrow> lst
      | Inr n \<Rightarrow>
          if \<not> registrable n then lst
          else if n_ascii n \<in> seen then lst
          else (insert (n_ascii n) seen,
                candidates @ [\<lparr>cd_domain = n_ascii n, cd_tld_rank = rank, cd_exact_base = exact,
                               cd_hyphenated = hyphenated\<rparr>]))"

fun add_prefixes ::
  "externals \<Rightarrow> bool \<Rightarrow> string \<Rightarrow> string \<Rightarrow> nat \<Rightarrow> string list \<Rightarrow> listing \<Rightarrow> listing" where
  "add_prefixes X hyphenate base tld rank [] lst = lst"
| "add_prefixes X hyphenate base tld rank (raw # raws) lst =
     (let prefix = normalize_label X raw
      in add_prefixes X hyphenate base tld rank raws
           (if prefix = [] then lst
            else let l1 = add_candidate X (prefix @ base) tld rank False False lst
                 in if hyphenate then add_candidate X (prefix @ ''-'' @ base) tld rank False True l1
                    else l1))"

fun add_suffixes ::
  "externals \<Rightarrow> bool \<Rightarrow> string \<Rightarrow> string \<Rightarrow> nat \<Rightarrow> string list \<Rightarrow> listing \<Rightarrow> listing" where
  "add_suffixes X hyphenate base tld rank [] lst = lst"
| "add_suffixes X hyphenate base tld rank (raw # raws) lst =
     (let suffix = normalize_label X raw
      in add_suffixes X hyphenate base tld rank raws
           (if suffix = [] then lst
            else let l1 = add_candidate X (base @ suffix) tld rank False False lst
                 in if hyphenate then add_candidate X (base @ ''-'' @ suffix) tld rank False True l1
                    else l1))"

fun add_tld_rows ::
  "externals \<Rightarrow> suggest_request \<Rightarrow> string \<Rightarrow> nat \<Rightarrow> string list \<Rightarrow> listing \<Rightarrow> listing" where
  "add_tld_rows X req base rank [] lst = lst"
| "add_tld_rows X req base rank (tld # tlds) lst =
     (let l1 = add_candidate X base tld rank True False lst;
          l2 = add_prefixes X (sg_hyphenate req) base tld rank (sg_prefixes req) l1;
          l3 = add_suffixes X (sg_hyphenate req) base tld rank (sg_suffixes req) l2
      in add_tld_rows X req base (Suc rank) tlds l3)"

fun tld_hacks :: "string \<Rightarrow> string list \<Rightarrow> (string \<times> string) list" where
  "tld_hacks base [] = []"
| "tld_hacks base (tld # tlds) =
     (if length base \<le> length tld \<or> \<not> has_suffix base tld then tld_hacks base tlds
      else let label = take (length base - length tld) base
           in if has_suffix label ''-'' then tld_hacks base tlds
              else (label, tld) # tld_hacks base tlds)"

fun add_hacks :: "externals \<Rightarrow> nat \<Rightarrow> (string \<times> string) list \<Rightarrow> listing \<Rightarrow> listing" where
  "add_hacks X rank [] lst = lst"
| "add_hacks X rank ((label, tld) # hacks) lst =
     add_hacks X rank hacks (add_candidate X label tld rank False False lst)"

fun expand_names :: "externals \<Rightarrow> suggest_request \<Rightarrow> string list \<Rightarrow> string list \<Rightarrow> listing \<Rightarrow> listing" where
  "expand_names X req tlds [] lst = lst"
| "expand_names X req tlds (raw_name # raw_names) lst =
     (let base = normalize_label X raw_name
      in expand_names X req tlds raw_names
           (if base = [] then lst
            else let l1 = add_tld_rows X req base 0 tlds lst
                 in if sg_tld_hacks req then add_hacks X (length tlds) (tld_hacks base tlds) l1 else l1))"

definition expand :: "externals \<Rightarrow> suggest_request \<Rightarrow> candidate list" where
  "expand X req =
     snd (expand_names X req (collect_tlds X (sg_tlds req) []) (sg_names req) ({}, []))"

section \<open>Ranking\<close>

text \<open>\<^theory_text>\<open>sort.SliceStable\<close> as an insertion sort: an element goes before the first one it is less than.\<close>

fun insert_stable :: "('a \<Rightarrow> 'a \<Rightarrow> bool) \<Rightarrow> 'a \<Rightarrow> 'a list \<Rightarrow> 'a list" where
  "insert_stable lt x [] = [x]"
| "insert_stable lt x (y # ys) = (if lt x y then x # y # ys else y # insert_stable lt x ys)"

definition sort_stable :: "('a \<Rightarrow> 'a \<Rightarrow> bool) \<Rightarrow> 'a list \<Rightarrow> 'a list" where
  "sort_stable lt xs = fold (insert_stable lt) xs []"

definition ranked_before :: "candidate \<times> check_result \<Rightarrow> candidate \<times> check_result \<Rightarrow> bool" where
  "ranked_before x y = less_candidate (fst x) (fst y)"

definition rank_checks :: "suggest_request \<Rightarrow> (candidate \<times> check_result) list \<Rightarrow> (candidate \<times> check_result) list" where
  "rank_checks req pairs =
     (let kept = filter (\<lambda>(c, r). \<not> (sg_only_available req \<and> cr_availability r \<noteq> AvailabilityAvailable)) pairs;
          order = sort_stable ranked_before kept;
          limit = (if sg_limit req \<le> 0 \<or> int (length order) < sg_limit req then length order
                   else nat (sg_limit req))
      in take limit order)"

definition chosen_candidates :: "suggest_request \<Rightarrow> candidate list \<Rightarrow> candidate list" where
  "chosen_candidates req candidates =
     (if 0 < sg_max_candidates req \<and> sg_max_candidates req < int (length candidates)
      then take (nat (sg_max_candidates req)) candidates else candidates)"

definition suggest ::
  "externals \<Rightarrow> ('s \<Rightarrow> time) \<Rightarrow> 's engine \<Rightarrow> job list \<Rightarrow> suggest_request \<Rightarrow>
   's engine_state \<Rightarrow> suggest_result res \<times> 's engine_state" where
  "suggest X now en jobs req st =
     (let candidates = expand X req; chosen = chosen_candidates req candidates
      in case check_many X now en jobs (map cd_domain chosen) False st of
           (Ok checks, st1) \<Rightarrow>
             (Ok \<lparr>su_results = map snd (rank_checks req (zip chosen checks)),
                  su_generated = length candidates, su_checked = length chosen,
                  su_truncated = (0 < sg_max_candidates req \<and> sg_max_candidates req < int (length candidates))\<rparr>,
              st1)
         | (Err e, st1) \<Rightarrow> (Err e, st1)
         | (Panic, st1) \<Rightarrow> (Panic, st1))"

section \<open>Stable sorting as an interface\<close>

text \<open>
  What \<^theory_text>\<open>sort.SliceStable\<close> needs of a comparison, and what it then promises: the same elements, none
  before one that is less, and equivalent elements in their old order.
\<close>

locale strict_weak =
  fixes lt :: "'a \<Rightarrow> 'a \<Rightarrow> bool"
  assumes irrefl: "\<not> lt x x"
    and trans: "lt x y \<Longrightarrow> lt y z \<Longrightarrow> lt x z"
    and cotrans: "lt x z \<Longrightarrow> lt x y \<or> lt y z"
begin

definition ordered :: "'a list \<Rightarrow> bool" where
  "ordered xs = sorted_wrt (\<lambda>x y. \<not> lt y x) xs"

lemma mset_insert_stable [simp]: "mset (insert_stable lt x ys) = add_mset x (mset ys)"
  by (induction ys) auto

lemma mset_fold_insert: "mset (fold (insert_stable lt) xs ys) = mset xs + mset ys"
  by (induction xs arbitrary: ys) auto

lemma set_insert_stable [simp]: "set (insert_stable lt x ys) = insert x (set ys)"
  by (induction ys) auto

lemma insert_stable_ordered: "ordered ys \<Longrightarrow> ordered (insert_stable lt x ys)"
proof (induction ys)
  case (Cons y ys)
  show ?case
  proof (cases "lt x y")
    case True
    have "\<not> lt z x" if "z \<in> set (y # ys)" for z
      using that True Cons.prems trans [of z x y] irrefl by (auto simp: ordered_def)
    with True Cons.prems show ?thesis by (auto simp: ordered_def)
  next
    case False
    with Cons show ?thesis by (auto simp: ordered_def)
  qed
qed (simp add: ordered_def)

lemma insert_stable_equivalent:
  assumes "ordered ys"
  shows "filter (\<lambda>z. \<not> lt u z \<and> \<not> lt z u) (insert_stable lt x ys) =
    filter (\<lambda>z. \<not> lt u z \<and> \<not> lt z u) ys @ (if \<not> lt u x \<and> \<not> lt x u then [x] else [])"
  using assms
proof (induction ys)
  case (Cons y ys)
  show ?case
  proof (cases "lt x y \<and> \<not> lt u x \<and> \<not> lt x u")
    case True
    have "lt u z" if "z \<in> set (y # ys)" for z
      using that True Cons.prems cotrans [of x y u] cotrans [of u y z] by (auto simp: ordered_def)
    with True show ?thesis by (auto simp: filter_empty_conv)
  next
    case False
    with Cons show ?thesis by (auto simp: ordered_def)
  qed
qed simp

lemma fold_insert_stable:
  assumes "ordered ys"
  shows "ordered (fold (insert_stable lt) xs ys) \<and>
    filter (\<lambda>z. \<not> lt u z \<and> \<not> lt z u) (fold (insert_stable lt) xs ys) =
    filter (\<lambda>z. \<not> lt u z \<and> \<not> lt z u) ys @ filter (\<lambda>z. \<not> lt u z \<and> \<not> lt z u) xs"
  using assms
proof (induction xs arbitrary: ys)
  case (Cons x xs)
  from Cons.IH [OF insert_stable_ordered [OF Cons.prems, of x]] insert_stable_equivalent [OF Cons.prems]
  show ?case by simp
qed simp

lemma sort_stable_correct:
  "mset (sort_stable lt xs) = mset xs \<and> sorted_wrt (\<lambda>x y. \<not> lt y x) (sort_stable lt xs) \<and>
   filter (\<lambda>z. \<not> lt u z \<and> \<not> lt z u) (sort_stable lt xs) = filter (\<lambda>z. \<not> lt u z \<and> \<not> lt z u) xs"
  using fold_insert_stable [of "[]" xs u] by (simp add: sort_stable_def mset_fold_insert ordered_def)

end

text \<open>The comparison is the lexicographic order of a key.\<close>

definition rank_key :: "candidate \<Rightarrow> nat \<times> bool \<times> bool \<times> nat \<times> string" where
  "rank_key c = (cd_tld_rank c, \<not> cd_exact_base c, cd_hyphenated c, length (cd_domain c), cd_domain c)"

lemma less_candidate_key: "less_candidate a b \<longleftrightarrow> rank_key a < rank_key b"
  by (cases "cd_tld_rank a = cd_tld_rank b"; cases "cd_exact_base a"; cases "cd_exact_base b";
      cases "cd_hyphenated a"; cases "cd_hyphenated b"; cases "length (cd_domain a) = length (cd_domain b)")
     (simp_all add: less_candidate_def rank_key_def less_prod_def' del: less_prod_simp)

lemma rank_key_inject: "rank_key a = rank_key b \<Longrightarrow> cd_domain a = cd_domain b"
  by (simp add: rank_key_def)

lemma less_candidate_total: "cd_domain a \<noteq> cd_domain b \<Longrightarrow> less_candidate a b \<or> less_candidate b a"
  unfolding less_candidate_key using rank_key_inject linorder_less_linear by blast

interpretation ranking: strict_weak ranked_before
  by unfold_locales (auto simp: ranked_before_def less_candidate_key)

section \<open>What the expansion lists\<close>

text \<open>The invariant of the closure \<open>add\<close> over the TLDs \<open>tlds\<close>.\<close>

definition candidate_ok :: "externals \<Rightarrow> string list \<Rightarrow> candidate \<Rightarrow> bool" where
  "candidate_ok X tlds c =
     (cd_tld_rank c \<le> length tlds \<and>
      (\<exists>label. \<exists>tld \<in> set tlds. \<exists>n. parse X (label @ ''.'' @ tld) = Inr n \<and> registrable n \<and>
         cd_domain c = n_ascii n \<and> (cd_tld_rank c < length tlds \<longrightarrow> tlds ! cd_tld_rank c = tld)))"

definition listing_ok :: "externals \<Rightarrow> string list \<Rightarrow> listing \<Rightarrow> bool" where
  "listing_ok X tlds lst =
     (fst lst = cd_domain ` set (snd lst) \<and> distinct (map cd_domain (snd lst)) \<and>
      list_all (candidate_ok X tlds) (snd lst))"

lemma add_candidate_ok:
  assumes "listing_ok X tlds lst" and "tld \<in> set tlds" and "rank \<le> length tlds"
    and "rank < length tlds \<Longrightarrow> tlds ! rank = tld"
  shows "listing_ok X tlds (add_candidate X label tld rank exact hyph lst)"
proof (cases "parse X (label @ ''.'' @ tld)")
  case (Inl e)
  with assms(1) show ?thesis by (simp add: add_candidate_def split_beta)
next
  case (Inr n)
  show ?thesis
  proof (cases "registrable n \<and> n_ascii n \<notin> fst lst")
    case True
    let ?c = "\<lparr>cd_domain = n_ascii n, cd_tld_rank = rank, cd_exact_base = exact, cd_hyphenated = hyph\<rparr>"
    have "candidate_ok X tlds ?c" using assms(2-4) Inr True by (auto simp: candidate_ok_def)
    with True Inr assms(1) show ?thesis by (auto simp: add_candidate_def split_beta listing_ok_def)
  next
    case False
    with Inr assms(1) show ?thesis by (auto simp: add_candidate_def split_beta)
  qed
qed

lemma add_prefixes_ok:
  assumes "tld \<in> set tlds" and "rank \<le> length tlds" and "rank < length tlds \<Longrightarrow> tlds ! rank = tld"
    and "listing_ok X tlds lst"
  shows "listing_ok X tlds (add_prefixes X hyph base tld rank raws lst)"
  using assms(4) by (induction raws arbitrary: lst) (simp_all add: Let_def add_candidate_ok assms(1-3))

lemma add_suffixes_ok:
  assumes "tld \<in> set tlds" and "rank \<le> length tlds" and "rank < length tlds \<Longrightarrow> tlds ! rank = tld"
    and "listing_ok X tlds lst"
  shows "listing_ok X tlds (add_suffixes X hyph base tld rank raws lst)"
  using assms(4) by (induction raws arbitrary: lst) (simp_all add: Let_def add_candidate_ok assms(1-3))

lemma add_tld_rows_ok:
  assumes "listing_ok X (before @ rest) lst"
  shows "listing_ok X (before @ rest) (add_tld_rows X req base (length before) rest lst)"
  using assms
proof (induction rest arbitrary: before lst)
  case (Cons tld rest)
  have "tld \<in> set (before @ tld # rest)" "length before \<le> length (before @ tld # rest)"
    "(before @ tld # rest) ! length before = tld" by simp_all
  note step = add_suffixes_ok [OF this] add_prefixes_ok [OF this] add_candidate_ok [OF _ this]
  from Cons.IH [of "before @ [tld]"] Cons.prems step show ?case by (simp add: Let_def)
qed simp

lemma tld_hacks_split:
  "(label, tld) \<in> set (tld_hacks base tlds) \<Longrightarrow> tld \<in> set tlds \<and> base = label @ tld \<and> label \<noteq> []"
  by (induction tlds) (auto simp: Let_def has_suffix_iff split: if_splits)

lemma add_hacks_ok:
  "listing_ok X tlds lst \<Longrightarrow> \<forall>(label, tld) \<in> set hacks. tld \<in> set tlds \<Longrightarrow>
   listing_ok X tlds (add_hacks X (length tlds) hacks lst)"
proof (induction hacks arbitrary: lst)
  case (Cons hack hacks)
  obtain label tld where hack: "hack = (label, tld)" by (cases hack)
  with Cons.prems have "listing_ok X tlds (add_candidate X label tld (length tlds) False False lst)"
    by (intro add_candidate_ok) simp_all
  with Cons hack show ?case by simp
qed simp

lemma expand_names_ok:
  "listing_ok X tlds lst \<Longrightarrow> listing_ok X tlds (expand_names X req tlds raw_names lst)"
proof (induction raw_names arbitrary: lst)
  case (Cons raw raws)
  let ?base = "normalize_label X raw"
  have rows: "listing_ok X tlds (add_tld_rows X req ?base 0 tlds lst)"
    using add_tld_rows_ok [of X "[]" tlds lst req ?base] Cons.prems by simp
  moreover from this have "listing_ok X tlds (add_hacks X (length tlds) (tld_hacks ?base tlds)
      (add_tld_rows X req ?base 0 tlds lst))"
    by (rule add_hacks_ok) (auto dest: tld_hacks_split)
  ultimately show ?case using Cons by (simp add: Let_def)
qed simp

lemma collect_tlds_distinct: "distinct tlds \<Longrightarrow> distinct (collect_tlds X raws tlds)"
  by (induction raws arbitrary: tlds) (auto split: sum.split)

lemma expand_ok: "listing_ok X (collect_tlds X (sg_tlds req) [])
    (cd_domain ` set (expand X req), expand X req)"
proof -
  let ?t = "collect_tlds X (sg_tlds req) []"
  have "listing_ok X ?t (expand_names X req ?t (sg_names req) ({}, []))"
    by (rule expand_names_ok) (simp add: listing_ok_def)
  then show ?thesis by (simp add: expand_def listing_ok_def)
qed

section \<open>What the ranking returns\<close>

definition keeps_check :: "suggest_request \<Rightarrow> check_result \<Rightarrow> bool" where
  "keeps_check req r = (sg_only_available req \<longrightarrow> cr_availability r = AvailabilityAvailable)"

lemma strict_ranking:
  assumes "distinct (map (cd_domain \<circ> fst) ps)" and "sorted_wrt (\<lambda>x y. \<not> ranked_before y x) ps"
  shows "sorted_wrt (\<lambda>x y. less_candidate (fst x) (fst y)) ps"
  using assms
proof (induction ps)
  case (Cons p ps)
  have "less_candidate (fst p) (fst q)" if "q \<in> set ps" for q
  proof -
    have "cd_domain (fst p) \<noteq> cd_domain (fst q)" using that Cons.prems(1) by force
    moreover have "\<not> less_candidate (fst q) (fst p)" using that Cons.prems(2) by (simp add: ranked_before_def)
    ultimately show ?thesis using less_candidate_total by blast
  qed
  with Cons show ?case by simp
qed simp

lemma rank_checks_correct:
  fixes req :: suggest_request
  assumes "distinct (map (cd_domain \<circ> fst) pairs)"
  defines "out \<equiv> rank_checks req pairs"
  shows "sorted_wrt (\<lambda>x y. less_candidate (fst x) (fst y)) out"
    and "set out \<subseteq> {(c, r) \<in> set pairs. keeps_check req r}" and "distinct (map (cd_domain \<circ> fst) out)"
    and "0 < sg_limit req \<Longrightarrow> int (length out) \<le> sg_limit req"
    and "(c, r) \<in> set pairs \<Longrightarrow> keeps_check req r \<Longrightarrow> (c, r) \<notin> set out \<Longrightarrow>
      0 < sg_limit req \<and> int (length out) = sg_limit req \<and> (\<forall>p \<in> set out. less_candidate (fst p) c)"
proof -
  define kept where "kept = filter (\<lambda>(c, r). \<not> (sg_only_available req \<and> cr_availability r \<noteq> AvailabilityAvailable)) pairs"
  define order where "order = sort_stable ranked_before kept"
  define limit where "limit = (if sg_limit req \<le> 0 \<or> int (length order) < sg_limit req then length order
    else nat (sg_limit req))"
  have out: "out = take limit order"
    by (simp add: out_def rank_checks_def Let_def kept_def order_def limit_def)
  have sorted: "mset order = mset kept" "sorted_wrt (\<lambda>x y. \<not> ranked_before y x) order"
    using ranking.sort_stable_correct [of kept] by (simp_all add: order_def)
  have sets: "set order = {(c, r) \<in> set pairs. keeps_check req r}"
    using mset_eq_setD [OF sorted(1)] by (auto simp: kept_def keeps_check_def)
  have "distinct (map (cd_domain \<circ> fst) kept)"
    using assms(1) by (auto simp: kept_def distinct_map inj_on_def)
  moreover have "mset (map (cd_domain \<circ> fst) order) = mset (map (cd_domain \<circ> fst) kept)"
    using sorted(1) by (simp add: mset_map)
  ultimately have dist: "distinct (map (cd_domain \<circ> fst) order)" by (metis mset_eq_imp_distinct_iff)
  note strict = strict_ranking [OF dist sorted(2)]
  show "sorted_wrt (\<lambda>x y. less_candidate (fst x) (fst y)) out" by (simp add: out strict sorted_wrt_take)
  show "set out \<subseteq> {(c, r) \<in> set pairs. keeps_check req r}" using set_take_subset [of limit order] sets by (simp add: out)
  show "distinct (map (cd_domain \<circ> fst) out)" using dist by (simp add: out take_map [symmetric])
  show "0 < sg_limit req \<Longrightarrow> int (length out) \<le> sg_limit req" by (auto simp: out limit_def)
  assume miss: "(c, r) \<in> set pairs" "keeps_check req r" "(c, r) \<notin> set out"
  then have "(c, r) \<in> set order" using sets by auto
  moreover have split: "order = out @ drop limit order" by (simp add: out)
  ultimately have late: "(c, r) \<in> set (drop limit order)" using miss(3) by (metis Un_iff set_append)
  then have "limit < length order" by (metis drop_eq_Nil2 empty_iff empty_set not_less)
  then have "0 < sg_limit req" "int (length out) = sg_limit req" by (auto simp: out limit_def split: if_splits)
  moreover have "\<forall>p \<in> set out. less_candidate (fst p) c"
    using strict late split by (metis fst_conv sorted_wrt_append)
  ultimately show "0 < sg_limit req \<and> int (length out) = sg_limit req \<and> (\<forall>p \<in> set out. less_candidate (fst p) c)"
    by blast
qed

lemma chosen_candidates_prefix:
  "chosen_candidates req cs = take (length (chosen_candidates req cs)) cs"
  "0 < sg_max_candidates req \<Longrightarrow> int (length (chosen_candidates req cs)) \<le> sg_max_candidates req"
  by (auto simp: chosen_candidates_def)

section \<open>Completeness of the expansion\<close>

lemma add_candidate_mono: "fst lst \<subseteq> fst (add_candidate X label tld rank exact hyph lst)"
  by (auto simp: add_candidate_def split_beta split: sum.split)

lemma add_candidate_seen:
  "parse X (label @ ''.'' @ tld) = Inr n \<Longrightarrow> registrable n \<Longrightarrow>
   n_ascii n \<in> fst (add_candidate X label tld rank exact hyph lst)"
  by (simp add: add_candidate_def split_beta)

lemma add_prefixes_mono: "fst lst \<subseteq> fst (add_prefixes X hyph base tld rank raws lst)"
proof (induction raws arbitrary: lst)
  case (Cons raw raws)
  show ?case
    unfolding add_prefixes.simps Let_def
    by (rule order.trans [OF _ Cons.IH]) (auto intro!: subsetD [OF add_candidate_mono])
qed simp

lemma add_suffixes_mono: "fst lst \<subseteq> fst (add_suffixes X hyph base tld rank raws lst)"
proof (induction raws arbitrary: lst)
  case (Cons raw raws)
  show ?case
    unfolding add_suffixes.simps Let_def
    by (rule order.trans [OF _ Cons.IH]) (auto intro!: subsetD [OF add_candidate_mono])
qed simp

lemma add_tld_rows_mono: "fst lst \<subseteq> fst (add_tld_rows X req base rank tlds lst)"
proof (induction tlds arbitrary: rank lst)
  case (Cons tld tlds)
  show ?case
    unfolding add_tld_rows.simps Let_def
    by (intro order.trans [OF _ Cons.IH] order.trans [OF _ add_suffixes_mono]
        order.trans [OF _ add_prefixes_mono] add_candidate_mono)
qed simp

lemma add_tld_rows_seen:
  assumes "tld \<in> set tlds" and "parse X (base @ ''.'' @ tld) = Inr n" and "registrable n"
  shows "n_ascii n \<in> fst (add_tld_rows X req base rank tlds lst)"
  using assms(1)
proof (induction tlds arbitrary: rank lst)
  case (Cons t ts)
  show ?case
  proof (cases "t = tld")
    case True
    have "n_ascii n \<in> fst (add_candidate X base t rank True False lst)"
      using assms(2,3) True by (intro add_candidate_seen) simp_all
    then show ?thesis
      unfolding add_tld_rows.simps Let_def
      by (intro subsetD [OF add_tld_rows_mono] subsetD [OF add_suffixes_mono] subsetD [OF add_prefixes_mono])
  next
    case False
    with Cons show ?thesis by (simp add: Let_def)
  qed
qed simp

lemma add_hacks_mono: "fst lst \<subseteq> fst (add_hacks X rank hacks lst)"
proof (induction hacks arbitrary: lst)
  case (Cons hack hacks)
  obtain label tld where "hack = (label, tld)" by (cases hack)
  then show ?case
    using order.trans [OF add_candidate_mono Cons.IH] by simp
qed simp

lemma expand_names_mono: "fst lst \<subseteq> fst (expand_names X req tlds raws lst)"
proof (induction raws arbitrary: lst)
  case (Cons raw raws)
  show ?case
    unfolding expand_names.simps Let_def
    by (rule order.trans [OF _ Cons.IH])
       (auto intro: subsetD [OF add_hacks_mono] subsetD [OF add_tld_rows_mono])
qed simp

lemma expand_names_seen:
  assumes "raw \<in> set raws" and "tld \<in> set tlds" and "normalize_label X raw \<noteq> []"
    and "parse X (normalize_label X raw @ ''.'' @ tld) = Inr n" and "registrable n"
  shows "n_ascii n \<in> fst (expand_names X req tlds raws lst)"
  using assms(1)
proof (induction raws arbitrary: lst)
  case (Cons r rs)
  show ?case
  proof (cases "r = raw")
    case True
    have "n_ascii n \<in> fst (add_tld_rows X req (normalize_label X r) 0 tlds lst)"
      using True assms(2,4,5) by (intro add_tld_rows_seen) simp_all
    with True assms(3) show ?thesis
      by (auto simp: Let_def intro!: subsetD [OF expand_names_mono] subsetD [OF add_hacks_mono])
  next
    case False
    with Cons show ?thesis by (simp add: Let_def)
  qed
qed simp

section \<open>Properties\<close>

text \<open>
  C29: the expansion lists no domain twice, and only names that are one label under their public
  suffix, made from one of the requested TLDs and ranked by its position (after all of them for
  a TLD hack).
\<close>

theorem expand_candidates:
  "distinct (map cd_domain (expand X req)) \<and>
   list_all (candidate_ok X (collect_tlds X (sg_tlds req) [])) (expand X req) \<and>
   distinct (collect_tlds X (sg_tlds req) [])"
  using expand_ok [of X req] collect_tlds_distinct [of "[]"] by (simp add: listing_ok_def)

text \<open>
  C30: no combination of a requested name and a requested TLD is lost: where it parses to a
  registrable name, that name is among the candidates.
\<close>

theorem expand_complete:
  assumes "raw \<in> set (sg_names req)" and "normalize_label X raw \<noteq> []"
    and "tld \<in> set (collect_tlds X (sg_tlds req) [])"
    and "parse X (normalize_label X raw @ ''.'' @ tld) = Inr n" and "registrable n"
  shows "n_ascii n \<in> cd_domain ` set (expand X req)"
proof -
  let ?t = "collect_tlds X (sg_tlds req) []"
  have "listing_ok X ?t (expand_names X req ?t (sg_names req) ({}, []))"
    by (rule expand_names_ok) (simp add: listing_ok_def)
  then have "cd_domain ` set (expand X req) = fst (expand_names X req ?t (sg_names req) ({}, []))"
    by (simp add: expand_def listing_ok_def)
  with expand_names_seen [OF assms(1,3,2,4,5), of req] show ?thesis by simp
qed

definition sample_request :: suggest_request where
  "sample_request =
     \<lparr>sg_names = [''example''], sg_tlds = [''com''], sg_prefixes = [], sg_suffixes = [], sg_hyphenate = False,
      sg_tld_hacks = False, sg_max_candidates = 100, sg_only_available = True, sg_limit = 1\<rparr>"

theorem expand_complete_witness:
  "''example.com'' \<in> cd_domain ` set (expand plain_externals sample_request)"
proof -
  have host: "list_all host_char ''example''" "list_all host_char ''com''" "list_all host_char ''example.com''"
    by (simp_all add: host_char_def byte_of_def)
  note trims = trim_space_host [OF host(1)] trim_space_host [OF host(2)] trim_space_host [OF host(3)]
  have low: "lower plain_externals ''example'' = ''example''" "lower plain_externals ''com'' = ''com''"
    "lower plain_externals ''example.com'' = ''example.com''"
    by (simp_all add: to_lower_def is_ascii_def lower_char_def byte_of_def ascii_lower_def)
  have label: "normalize_label plain_externals ''example'' = ''example''"
    using trims low by (simp add: normalize_label_def trim_char_def)
  have ascii: "x_to_ascii plain_externals ''com'' = Some ''com''" using host by (simp add: plain_externals_def)
  have tld: "''com'' \<in> set (collect_tlds plain_externals (sg_tlds sample_request) [])"
    using trims low ascii by (simp add: sample_request_def normalize_tld_def trim_prefix_def)
  have name: "parse plain_externals (''example'' @ ''.'' @ ''com'') = Inr
      \<lparr>n_input = ''example.com'', n_ascii = ''example.com'', n_unicode = ''example.com'', n_tld = ''com'',
       n_suffix = ''com'', n_sld = ''example''\<rparr>" (is "_ = Inr ?n")
  proof -
    have "trim_suffix ''example.com'' ''.'' = ''example.com''" "trim_suffix ''example.com'' ''.com'' = ''example''"
      "after_last (CHR ''.'') ''example.com'' = ''com''" "after_last (CHR ''.'') ''example'' = ''example''"
      by (simp_all add: trim_suffix_def has_suffix_def after_last_def)
    with host low show ?thesis
      by (simp add: parse_def Let_def plain_externals_def contains_def bad_label_def)
  qed
  have "registrable ?n" by (simp add: registrable_def)
  from expand_complete [where req = sample_request and raw = "''example''", OF _ _ tld _ this] label name
  show ?thesis by (simp add: sample_request_def)
qed

text \<open>
  C31: the ranking returns kept results only, each at most once, strictly ordered by \<open>less\<close> and at most
  \<open>Limit\<close> of them; what it leaves out is ranked after everything it returns.
\<close>

theorem rank_checks_best:
  assumes "distinct (map (cd_domain \<circ> fst) pairs)"
  shows "sorted_wrt (\<lambda>x y. less_candidate (fst x) (fst y)) (rank_checks req pairs) \<and>
    set (rank_checks req pairs) \<subseteq> {(c, r) \<in> set pairs. keeps_check req r} \<and>
    (sg_limit req \<le> 0 \<or> int (length (rank_checks req pairs)) \<le> sg_limit req) \<and>
    (\<forall>(c, r) \<in> set pairs. keeps_check req r \<and> (c, r) \<notin> set (rank_checks req pairs) \<longrightarrow>
       int (length (rank_checks req pairs)) = sg_limit req \<and>
       (\<forall>p \<in> set (rank_checks req pairs). less_candidate (fst p) c))"
  using rank_checks_correct(1,2,4) [OF assms, of req] rank_checks_correct(5) [OF assms, of _ _ req] by force

theorem rank_checks_best_witness:
  "\<exists>pairs. length pairs = 2 \<and> int (length (rank_checks sample_request pairs)) \<le> 1 \<and>
    sorted_wrt (\<lambda>x y. less_candidate (fst x) (fst y)) (rank_checks sample_request pairs)"
proof -
  let ?a = "\<lparr>cd_domain = ''getexample.com'', cd_tld_rank = 0, cd_exact_base = False, cd_hyphenated = False\<rparr>"
  let ?b = "\<lparr>cd_domain = ''example.com'', cd_tld_rank = 0, cd_exact_base = True, cd_hyphenated = False\<rparr>"
  define pairs where "pairs = [(?a, sample_check), (?b, sample_check)]"
  have "distinct (map (cd_domain \<circ> fst) pairs)" by (simp add: pairs_def)
  note best = rank_checks_best [OF this, of sample_request]
  have "\<not> sg_limit sample_request \<le> 0" "sg_limit sample_request = 1" by (simp_all add: sample_request_def)
  with best have "int (length (rank_checks sample_request pairs)) \<le> 1" by (elim conjE) simp
  moreover have "length pairs = 2" by (simp add: pairs_def)
  ultimately show ?thesis using conjunct1 [OF best] by blast
qed

end
