(* ===== verification/Tools.thy ===== *)
theory Tools
  imports System Suggest
begin

text \<open>
  \<^theory_text>\<open>internal/mcpserver/tools.go\<close>: the handlers of the four tools, with their input checks, limits and
  defaults. The transport and the JSON text of a result are not modelled: a handler returns its
  structured result.
\<close>

definition max_batch_size :: nat where "max_batch_size = 100"

definition max_suggest_candidates :: int where "max_suggest_candidates = 250"

record batch_summary =
  bs_total :: nat
  bs_available :: nat
  bs_unavailable :: nat
  bs_unknown :: nat

record check_domains_output =
  co_results :: "check_result list"
  co_summary :: batch_summary

definition check_domain ::
  "config \<Rightarrow> 'w env \<Rightarrow> externals \<Rightarrow> nat list \<Rightarrow> bool \<Rightarrow> string \<Rightarrow> bool \<Rightarrow> 'w system engine_state \<Rightarrow>
   check_result res \<times> 'w system engine_state" where
  "check_domain c E X schedule join input include_raw st =
     (if input = [] then (Err (Failure ''domain is required''), st)
      else engine_check X (system_now E) (build_engine c E X) schedule join input include_raw st)"

text \<open>The loop over the results of a batch: the counters, and the results that are kept.\<close>

fun summarize :: "bool \<Rightarrow> check_result list \<Rightarrow> check_domains_output \<Rightarrow> check_domains_output" where
  "summarize only_available [] out = out"
| "summarize only_available (r # rs) out =
     (let s = co_summary out;
          s1 = (case cr_availability r of
                  AvailabilityAvailable \<Rightarrow> s\<lparr>bs_available := bs_available s + 1\<rparr>
                | AvailabilityUnavailable \<Rightarrow> s\<lparr>bs_unavailable := bs_unavailable s + 1\<rparr>
                | AvailabilityUnknown \<Rightarrow> s\<lparr>bs_unknown := bs_unknown s + 1\<rparr>);
          out1 = out\<lparr>co_summary := s1\<rparr>
      in summarize only_available rs
           (if only_available \<and> cr_availability r \<noteq> AvailabilityAvailable then out1
            else out1\<lparr>co_results := co_results out1 @ [r]\<rparr>))"

definition check_domains ::
  "config \<Rightarrow> 'w env \<Rightarrow> externals \<Rightarrow> job list \<Rightarrow> string list \<Rightarrow> bool \<Rightarrow> bool \<Rightarrow> 'w system engine_state \<Rightarrow>
   check_domains_output res \<times> 'w system engine_state" where
  "check_domains c E X jobs domains only_available include_raw st =
     (if domains = [] then (Err (Failure ''domains is required''), st)
      else if max_batch_size < length domains then (Err (Failure ''too many domains''), st)
      else case check_many X (system_now E) (build_engine c E X) jobs domains include_raw st of
          (Ok results, st1) \<Rightarrow>
            (Ok (summarize only_available results
                   \<lparr>co_results = [],
                    co_summary = \<lparr>bs_total = length results, bs_available = 0, bs_unavailable = 0, bs_unknown = 0\<rparr>\<rparr>),
             st1)
        | (Err e, st1) \<Rightarrow> (Err e, st1)
        | (Panic, st1) \<Rightarrow> (Panic, st1))"

definition get_domain_info ::
  "config \<Rightarrow> 'w env \<Rightarrow> externals \<Rightarrow> nat list \<Rightarrow> string \<Rightarrow> 'w system \<Rightarrow> domain_info res \<times> 'w system" where
  "get_domain_info c E X schedule input s =
     (if input = [] then (Err (Failure ''domain is required''), s)
      else engine_info X (system_now E) (build_engine c E X) schedule input s)"

record suggest_input =
  si_names :: "string list"
  si_tlds :: "string list"
  si_prefixes :: "string list"
  si_suffixes :: "string list"
  si_hyphenate :: bool
  si_tld_hacks :: bool
  si_max_candidates :: int
  si_limit :: int
  si_include_taken :: bool

definition suggest_request_of :: "suggest_input \<Rightarrow> suggest_request" where
  "suggest_request_of i =
     (let requested = (if si_max_candidates i \<le> 0 then 100 else si_max_candidates i);
          max_candidates = min requested max_suggest_candidates;
          limit = (if si_limit i \<le> 0 then 20 else si_limit i)
      in \<lparr>sg_names = si_names i, sg_tlds = si_tlds i, sg_prefixes = si_prefixes i,
          sg_suffixes = si_suffixes i, sg_hyphenate = si_hyphenate i, sg_tld_hacks = si_tld_hacks i,
          sg_max_candidates = max_candidates, sg_only_available = (\<not> si_include_taken i), sg_limit = limit\<rparr>)"

definition suggest_domains ::
  "config \<Rightarrow> 'w env \<Rightarrow> externals \<Rightarrow> job list \<Rightarrow> suggest_input \<Rightarrow> 'w system engine_state \<Rightarrow>
   suggest_result res \<times> 'w system engine_state" where
  "suggest_domains c E X jobs i st =
     (if si_names i = [] then (Err (Failure ''names is required''), st)
      else if si_tlds i = [] then (Err (Failure ''tlds is required''), st)
      else suggest X (system_now E) (build_engine c E X) jobs (suggest_request_of i) st)"

section \<open>Lemmas\<close>

abbreviation count_of :: "availability \<Rightarrow> check_result list \<Rightarrow> nat" where
  "count_of a rs \<equiv> length (filter (\<lambda>r. cr_availability r = a) rs)"

lemma summarize_eq:
  "summarize only rs out =
     \<lparr>co_results = co_results out @ filter (\<lambda>r. \<not> (only \<and> cr_availability r \<noteq> AvailabilityAvailable)) rs,
      co_summary = (co_summary out)
        \<lparr>bs_available := bs_available (co_summary out) + count_of AvailabilityAvailable rs,
         bs_unavailable := bs_unavailable (co_summary out) + count_of AvailabilityUnavailable rs,
         bs_unknown := bs_unknown (co_summary out) + count_of AvailabilityUnknown rs\<rparr>\<rparr>"
  by (induction rs arbitrary: out) (auto simp: Let_def split: availability.split)

lemma counts_total:
  "count_of AvailabilityAvailable rs + count_of AvailabilityUnavailable rs + count_of AvailabilityUnknown rs = length rs"
proof (induction rs)
  case (Cons r rs)
  then show ?case by (cases "cr_availability r") simp_all
qed simp

text \<open>A run of the suggestion tool, taken apart.\<close>

lemma suggest_domains_OkE:
  assumes "suggest_domains c E X jobs i st = (Ok out, st1)"
  defines "req \<equiv> suggest_request_of i"
  defines "chosen \<equiv> chosen_candidates req (expand X req)"
  obtains checks where "check_many X (system_now E) (build_engine c E X) jobs
      (map cd_domain chosen) False st = (Ok checks, st1)"
    "su_results out = map snd (rank_checks req (zip chosen checks))"
    "su_generated out = length (expand X req)" "su_checked out = length chosen"
    "su_truncated out = (0 < sg_max_candidates req \<and> sg_max_candidates req < int (length (expand X req)))"
  using assms(1) unfolding req_def chosen_def
  by (auto simp: suggest_domains_def suggest_def Let_def split: prod.splits res.splits if_splits)

lemma suggest_request_limits:
  "0 < sg_max_candidates (suggest_request_of i)" "sg_max_candidates (suggest_request_of i) \<le> 250"
  "0 < sg_limit (suggest_request_of i)" "sg_only_available (suggest_request_of i) = (\<not> si_include_taken i)"
  "sg_limit (suggest_request_of i) = (if si_limit i \<le> 0 then 20 else si_limit i)"
  by (simp_all add: suggest_request_of_def Let_def max_suggest_candidates_def)

text \<open>The pairs of a candidate and its answer.\<close>

lemma zipped_answers:
  assumes "length checks = length chosen" and "\<forall>i < length chosen. Q (cd_domain (chosen ! i)) (checks ! i)"
    and "(cand, r) \<in> set (zip chosen checks)"
  shows "cand \<in> set chosen \<and> Q (cd_domain cand) r"
  using assms by (auto simp: set_zip)

lemma good_available:
  assumes "good_value (primary_sources c E X) (corroborating_sources c E) key r"
    and "cr_availability r = AvailabilityAvailable"
  shows "\<exists>q \<in> set (cr_sources r). pr_registration q = RegistrationNotRegistered"
  using assms decide_available [of "scan_results (cr_sources r) nothing_found"] last_of_Some
  by (fastforce simp: resolve_def scan_nothing good_value_def honest_def Let_def)

lemma chosen_candidates_ok:
  "set (chosen_candidates req (expand X req)) \<subseteq> set (expand X req)"
  "distinct (map cd_domain (chosen_candidates req (expand X req)))"
proof -
  have "distinct (map cd_domain (expand X req))" using expand_ok [of X req] by (simp add: listing_ok_def)
  then show "distinct (map cd_domain (chosen_candidates req (expand X req)))"
    by (subst chosen_candidates_prefix(1)) (simp add: take_map [symmetric])
  show "set (chosen_candidates req (expand X req)) \<subseteq> set (expand X req)"
    by (subst chosen_candidates_prefix(1)) (rule set_take_subset)
qed

text \<open>An available answer about any input rests on a source that says \<open>not registered\<close>.\<close>

lemma answered_available:
  assumes "answered X (primary_sources c E X) (corroborating_sources c E) input r"
    and "cr_availability r = AvailabilityAvailable"
  shows "\<exists>q \<in> set (cr_sources r). pr_registration q = RegistrationNotRegistered"
proof (cases "parse X input")
  case (Inl e)
  with assms show ?thesis by (simp add: answered_def)
next
  case (Inr n)
  with assms(1) have "good_value (primary_sources c E X) (corroborating_sources c E) (n_ascii n) r"
    by (simp add: answered_def)
  from good_available [OF this assms(2)] show ?thesis .
qed

text \<open>What a run of the suggestion tool returns, as the ranked pairs of a candidate and its answer.\<close>

lemma suggest_domains_pairs:
  assumes "good c E X st" and "suggest_domains c E X jobs i st = (Ok out, st1)"
    and "mset (map fst jobs) = mset [0..<su_checked out]"
  obtains pairs where "su_results out = map snd pairs" "distinct (map (cd_domain \<circ> fst) pairs)"
    "int (length pairs) \<le> sg_limit (suggest_request_of i)"
    "\<And>p. p \<in> set pairs \<Longrightarrow> fst p \<in> set (expand X (suggest_request_of i)) \<and>
      answered X (primary_sources c E X) (corroborating_sources c E) (cd_domain (fst p)) (snd p) \<and>
      keeps_check (suggest_request_of i) (snd p)"
proof -
  let ?req = "suggest_request_of i"
  let ?chosen = "chosen_candidates ?req (expand X ?req)"
  obtain checks where run: "check_many X (system_now E) (build_engine c E X) jobs
      (map cd_domain ?chosen) False st = (Ok checks, st1)"
    and out: "su_results out = map snd (rank_checks ?req (zip ?chosen checks))" "su_checked out = length ?chosen"
    using assms(2) by (rule suggest_domains_OkE)
  have perm: "mset (map fst jobs) = mset [0..<length (map cd_domain ?chosen)]" using assms(3) out(2) by simp
  let ?ans = "answered X (primary_sources c E X) (corroborating_sources c E)"
  from many_good [OF assms(1) run perm] have len: "length checks = length ?chosen"
    and ans: "\<forall>k < length ?chosen. ?ans (cd_domain (?chosen ! k)) (checks ! k)"
    by auto
  have "map (cd_domain \<circ> fst) (zip ?chosen checks) = map cd_domain ?chosen"
    using len by (simp flip: map_map)
  then have zdist: "distinct (map (cd_domain \<circ> fst) (zip ?chosen checks))"
    using chosen_candidates_ok(2) by simp
  note rank = rank_checks_correct [OF zdist, where req = ?req]
  show ?thesis
  proof (rule that [OF out(1) rank(3) rank(4) [OF suggest_request_limits(3)]])
    fix p
    assume "p \<in> set (rank_checks ?req (zip ?chosen checks))"
    with rank(2) have "(fst p, snd p) \<in> set (zip ?chosen checks)" "keeps_check ?req (snd p)" by auto
    with zipped_answers [OF len ans this(1)] chosen_candidates_ok(1)
    show "fst p \<in> set (expand X ?req) \<and> ?ans (cd_domain (fst p)) (snd p) \<and> keeps_check ?req (snd p)" by blast
  qed
qed

section \<open>Properties\<close>

text \<open>
  C28: the suggestion tool checks at most 250 candidates and returns at most the limit, each domain
  once, each one a candidate of the expansion; unless taken names were asked for, every returned
  name is available on the word of a source that says \<open>not registered\<close>.
\<close>

theorem suggest_domains_sound:
  assumes "good c E X st" and "suggest_domains c E X jobs i st = (Ok out, st1)"
    and "mset (map fst jobs) = mset [0..<su_checked out]"
  shows "su_checked out \<le> 250 \<and> su_checked out \<le> su_generated out \<and>
    (su_truncated out \<longleftrightarrow> su_checked out < su_generated out) \<and>
    int (length (su_results out)) \<le> (if si_limit i \<le> 0 then 20 else si_limit i) \<and>
    distinct (map cr_domain (su_results out)) \<and>
    (\<forall>r \<in> set (su_results out). cr_domain r \<in> cd_domain ` set (expand X (suggest_request_of i)) \<and>
       (si_include_taken i \<or> cr_availability r = AvailabilityAvailable \<and>
          (\<exists>q \<in> set (cr_sources r). pr_registration q = RegistrationNotRegistered)))"
proof -
  let ?req = "suggest_request_of i"
  obtain pairs where out: "su_results out = map snd pairs" "distinct (map (cd_domain \<circ> fst) pairs)"
    "int (length pairs) \<le> sg_limit ?req"
    and pair: "\<And>p. p \<in> set pairs \<Longrightarrow> fst p \<in> set (expand X ?req) \<and>
      answered X (primary_sources c E X) (corroborating_sources c E) (cd_domain (fst p)) (snd p) \<and>
      keeps_check ?req (snd p)"
    using suggest_domains_pairs [OF assms] by blast
  have "map cr_domain (su_results out) = map (cd_domain \<circ> fst) pairs"
    using pair by (simp add: out(1) answered_def)
  with out(2) have "distinct (map cr_domain (su_results out))" by simp
  moreover have "cr_domain r \<in> cd_domain ` set (expand X ?req) \<and>
      (si_include_taken i \<or> cr_availability r = AvailabilityAvailable \<and>
        (\<exists>q \<in> set (cr_sources r). pr_registration q = RegistrationNotRegistered))" if "r \<in> set (su_results out)" for r
  proof -
    from that obtain p where p: "p \<in> set pairs" "r = snd p" by (auto simp: out(1))
    note ok = pair [OF p(1), folded p(2)]
    from ok have "cr_domain r = cd_domain (fst p)" by (simp add: answered_def)
    with ok answered_available show ?thesis by (auto simp: keeps_check_def suggest_request_limits)
  qed
  moreover have "int (length (su_results out)) \<le> (if si_limit i \<le> 0 then 20 else si_limit i)"
    using out(3) suggest_request_limits(5) [of i] by (simp add: out(1))
  moreover have "su_checked out \<le> 250 \<and> su_checked out \<le> su_generated out \<and>
    (su_truncated out \<longleftrightarrow> su_checked out < su_generated out)"
    using assms(2) suggest_request_limits(1,2) [of i]
    by (elim suggest_domains_OkE) (auto simp: chosen_candidates_def)
  ultimately show ?thesis by blast
qed

theorem suggest_domains_sound_witness:
  "\<exists>jobs out st1. suggest_domains sample_config script_env plain_externals jobs
      \<lparr>si_names = [''example''], si_tlds = [''com''], si_prefixes = [], si_suffixes = [], si_hyphenate = True,
       si_tld_hacks = True, si_max_candidates = 1000, si_limit = 0, si_include_taken = False\<rparr>
      (Map.empty, Map.empty, build_system sample_config plain_externals [] idle_script) = (Ok out, st1) \<and>
    su_checked out \<le> 250 \<and> int (length (su_results out)) \<le> 20"
proof -
  let ?i = "\<lparr>si_names = [''example''], si_tlds = [''com''], si_prefixes = [], si_suffixes = [], si_hyphenate = True,
       si_tld_hacks = True, si_max_candidates = 1000, si_limit = 0, si_include_taken = False\<rparr>"
  let ?st = "(Map.empty, Map.empty, build_system sample_config plain_externals [] idle_script)"
  define chosen where "chosen = chosen_candidates (suggest_request_of ?i) (expand plain_externals (suggest_request_of ?i))"
  define jobs :: "job list" where "jobs = map (\<lambda>k. (k, [], False)) [0..<length chosen]"
  have "cfg_rdap_retries sample_config \<le> 35" by (simp add: sample_config_def)
  then obtain rs st1 where many: "check_many plain_externals (system_now script_env)
      (build_engine sample_config script_env plain_externals) jobs (map cd_domain chosen) False ?st = (Ok rs, st1)"
    using check_many_returns [OF engine_never_panics] by blast
  have "\<exists>out. suggest_domains sample_config script_env plain_externals jobs ?i ?st = (Ok out, st1) \<and>
      su_checked out = length chosen"
    unfolding suggest_domains_def suggest_def Let_def chosen_def [symmetric] many by simp
  then obtain out where run: "suggest_domains sample_config script_env plain_externals jobs ?i ?st = (Ok out, st1)"
    and checked: "su_checked out = length chosen"
    by blast
  have "mset (map fst jobs) = mset [0..<su_checked out]" by (simp add: jobs_def checked comp_def)
  note sound = suggest_domains_sound [OF good_state_empty run this]
  have "su_checked out \<le> 250" using sound by blast
  moreover have "int (length (su_results out)) \<le> (if si_limit ?i \<le> 0 then 20 else si_limit ?i)" using sound by blast
  then have "int (length (su_results out)) \<le> 20" by simp
  ultimately show ?thesis
    using run by (intro exI [of _ jobs] exI [of _ out] exI [of _ st1] conjI) simp_all
qed

text \<open>
  C32: the batch tool refuses an empty batch and more than 100 names without touching anything;
  otherwise its summary counts every name of the batch once, and it returns all answers, or exactly
  the available ones.
\<close>

theorem check_domains_summary:
  assumes "good c E X st" and "cfg_rdap_retries c \<le> 35"
    and "mset (map fst jobs) = mset [0..<length domains]"
  shows "if domains = [] \<or> 100 < length domains
    then \<exists>e. check_domains c E X jobs domains only raw st = (Err e, st)
    else \<exists>out st1. check_domains c E X jobs domains only raw st = (Ok out, st1) \<and>
      bs_total (co_summary out) = length domains \<and>
      bs_available (co_summary out) + bs_unavailable (co_summary out) + bs_unknown (co_summary out) = length domains \<and>
      bs_available (co_summary out) = count_of AvailabilityAvailable (co_results out) \<and>
      length (co_results out) = (if only then bs_available (co_summary out) else length domains)"
proof (cases "domains = [] \<or> 100 < length domains")
  case True
  then show ?thesis by (auto simp: check_domains_def max_batch_size_def)
next
  case False
  obtain rs st1 where run: "check_many X (system_now E) (build_engine c E X) jobs domains raw st = (Ok rs, st1)"
    using check_many_returns [OF engine_never_panics [OF assms(2)]] by blast
  from many_good [OF assms(1) run assms(3)] have len: "length rs = length domains" by blast
  have filt: "filter (\<lambda>r. \<not> (only \<and> cr_availability r \<noteq> AvailabilityAvailable)) rs =
      (if only then filter (\<lambda>r. cr_availability r = AvailabilityAvailable) rs else rs)"
    by simp
  show ?thesis
    using False run len counts_total [of rs]
    by (cases st1) (simp add: check_domains_def max_batch_size_def summarize_eq filt)
qed

theorem check_domains_summary_witness:
  "\<exists>out st1. check_domains sample_config script_env plain_externals [(1, [], True), (0, [1], False)]
      [''shop.example.com'', []] True False
      (Map.empty, Map.empty, build_system sample_config plain_externals [] idle_script) = (Ok out, st1) \<and>
    bs_total (co_summary out) = 2"
proof -
  have k: "cfg_rdap_retries sample_config \<le> 35" by (simp add: sample_config_def)
  have jobs: "mset (map fst [(1 :: nat, [] :: nat list, True), (0, [1], False)]) =
      mset [0..<length [''shop.example.com'', []]]"
    by (simp add: upt_rec)
  show ?thesis
    using check_domains_summary [OF good_state_empty k jobs, where E = script_env and X = plain_externals
        and only = True and raw = False] by fastforce
qed

end
