(* ===== verification/Config.thy ===== *)
theory Config
  imports System
begin

text \<open>
  The rest of the configuration in \<^theory_text>\<open>cmd/domain-lens-mcp/main.go\<close>: a knob is its flag when given,
  else its environment variable when it reads, else its default. Reading a float and a duration are
  \<^theory_text>\<open>strconv.ParseFloat\<close> and \<^theory_text>\<open>time.ParseDuration\<close>, arguments here.
\<close>

section \<open>Environment variables\<close>

text \<open>What \<^theory_text>\<open>os.LookupEnv\<close> returns for each key.\<close>

type_synonym environment = "string \<Rightarrow> string option"

definition env_string :: "environment \<Rightarrow> string \<Rightarrow> string \<Rightarrow> string" where
  "env_string en key fallback =
     (case en key of Some value \<Rightarrow> if value \<noteq> [] then value else fallback | None \<Rightarrow> fallback)"

definition env_int :: "environment \<Rightarrow> string \<Rightarrow> int \<Rightarrow> int" where
  "env_int en key fallback =
     (case en key of
        None \<Rightarrow> fallback
      | Some value \<Rightarrow> (case atoi value of None \<Rightarrow> fallback | Some parsed \<Rightarrow> parsed))"

definition env_float :: "(string \<Rightarrow> rat option) \<Rightarrow> environment \<Rightarrow> string \<Rightarrow> rat \<Rightarrow> rat" where
  "env_float parse_float en key fallback =
     (case en key of
        None \<Rightarrow> fallback
      | Some value \<Rightarrow> (case parse_float value of None \<Rightarrow> fallback | Some parsed \<Rightarrow> parsed))"

text \<open>\<^theory_text>\<open>strconv.ParseBool\<close>.\<close>

definition parse_bool :: "string \<Rightarrow> bool option" where
  "parse_bool s =
     (if s \<in> {''1'', ''t'', ''T'', ''TRUE'', ''true'', ''True''} then Some True
      else if s \<in> {''0'', ''f'', ''F'', ''FALSE'', ''false'', ''False''} then Some False
      else None)"

definition env_bool :: "environment \<Rightarrow> string \<Rightarrow> bool \<Rightarrow> bool" where
  "env_bool en key fallback =
     (case en key of
        None \<Rightarrow> fallback
      | Some value \<Rightarrow> (case parse_bool value of None \<Rightarrow> fallback | Some parsed \<Rightarrow> parsed))"

definition env_duration :: "(string \<Rightarrow> duration option) \<Rightarrow> environment \<Rightarrow> string \<Rightarrow> duration \<Rightarrow> duration" where
  "env_duration parse_duration en key fallback =
     (case en key of
        None \<Rightarrow> fallback
      | Some value \<Rightarrow> (case parse_duration value of None \<Rightarrow> fallback | Some parsed \<Rightarrow> parsed))"

section \<open>Loading\<close>

text \<open>The flags given on the command line; one that is not given keeps the default.\<close>

record flags =
  fl_transport :: "string option"
  fl_http_addr :: "string option"
  fl_healthcheck :: "bool option"
  fl_log_level :: "string option"
  fl_request_timeout :: "duration option"
  fl_max_concurrency :: "int option"
  fl_rdap_rps :: "rat option"
  fl_rdap_retries :: "int option"
  fl_whois :: "bool option"
  fl_whois_rps :: "rat option"
  fl_dns :: "bool option"
  fl_dns_timeout :: "duration option"
  fl_ttl_available :: "duration option"
  fl_ttl_unavailable :: "duration option"
  fl_ttl_unknown :: "duration option"

definition flag_var :: "'a option \<Rightarrow> 'a \<Rightarrow> 'a" where
  "flag_var given fallback = (case given of None \<Rightarrow> fallback | Some v \<Rightarrow> v)"

definition load_config ::
  "(string \<Rightarrow> rat option) \<Rightarrow> (string \<Rightarrow> duration option) \<Rightarrow> environment \<Rightarrow> flags \<Rightarrow> config" where
  "load_config pf pd en f =
     \<lparr>cfg_transport = flag_var (fl_transport f) (env_string en ''TRANSPORT'' ''stdio''),
      cfg_http_addr = flag_var (fl_http_addr f) (env_string en ''HTTP_ADDR'' '':8080''),
      cfg_log_level = flag_var (fl_log_level f) (env_string en ''LOG_LEVEL'' ''info''),
      cfg_request_timeout = flag_var (fl_request_timeout f) (env_duration pd en ''REQUEST_TIMEOUT'' (10 * second)),
      cfg_max_concurrency = flag_var (fl_max_concurrency f) (env_int en ''MAX_CONCURRENCY'' 8),
      cfg_rdap_rps = flag_var (fl_rdap_rps f) (env_float pf en ''RDAP_RPS'' 5),
      cfg_rdap_retries = flag_var (fl_rdap_retries f) (env_int en ''RDAP_RETRIES'' 2),
      cfg_whois_enabled = flag_var (fl_whois f) (env_bool en ''WHOIS_ENABLED'' True),
      cfg_whois_rps = flag_var (fl_whois_rps f) (env_float pf en ''WHOIS_RPS'' 1),
      cfg_dns_enabled = flag_var (fl_dns f) (env_bool en ''DNS_ENABLED'' True),
      cfg_dns_timeout = flag_var (fl_dns_timeout f) (env_duration pd en ''DNS_TIMEOUT'' (3 * second)),
      cfg_cache_ttl =
        \<lparr>ct_available = flag_var (fl_ttl_available f) (env_duration pd en ''CACHE_TTL_AVAILABLE'' minute),
         ct_unavailable = flag_var (fl_ttl_unavailable f) (env_duration pd en ''CACHE_TTL_UNAVAILABLE'' (5 * minute)),
         ct_unknown = flag_var (fl_ttl_unknown f) (env_duration pd en ''CACHE_TTL_UNKNOWN'' (15 * second))\<rparr>,
      cfg_healthcheck = flag_var (fl_healthcheck f) False\<rparr>"

section \<open>The health probe\<close>

text \<open>\<^theory_text>\<open>net.SplitHostPort\<close> is an argument; \<^theory_text>\<open>net.JoinHostPort\<close> brackets a host with a colon.\<close>

definition join_host_port :: "string \<Rightarrow> string \<Rightarrow> string" where
  "join_host_port host port =
     (if contains host '':'' then ''['' @ host @ '']:'' @ port else host @ '':'' @ port)"

definition probe_health ::
  "(string \<Rightarrow> (string \<times> string) option) \<Rightarrow> 'w env \<Rightarrow> string \<Rightarrow> 'w \<Rightarrow> go_error option \<times> 'w" where
  "probe_health split E addr w =
     (case split addr of
        None \<Rightarrow> (Some (Wrapped ''invalid http address'' (Failure addr)), w)
      | Some (host0, port) \<Rightarrow>
          let host = (if host0 = [] \<or> host0 = ''0.0.0.0'' \<or> host0 = ''::'' then ''127.0.0.1'' else host0)
          in case e_http_get E (''http://'' @ join_host_port host port @ ''/healthz'') w of
               (HttpReply code retry body, w1) \<Rightarrow>
                 (if code \<noteq> 200 then Some (Failure ''health endpoint returned status'') else None, w1)
             | (_, w1) \<Rightarrow> (Some (Failure ''get''), w1))"

section \<open>Lemmas\<close>

text \<open>A variable that is missing or does not read leaves the default.\<close>

lemma env_fallback:
  "en key = None \<or> (\<exists>v. en key = Some v \<and> atoi v = None) \<Longrightarrow> env_int en key fallback = fallback"
  by (auto simp: env_int_def)

definition no_flags :: flags where
  "no_flags =
     \<lparr>fl_transport = None, fl_http_addr = None, fl_healthcheck = None, fl_log_level = None,
      fl_request_timeout = None, fl_max_concurrency = None, fl_rdap_rps = None, fl_rdap_retries = None,
      fl_whois = None, fl_whois_rps = None, fl_dns = None, fl_dns_timeout = None, fl_ttl_available = None,
      fl_ttl_unavailable = None, fl_ttl_unknown = None\<rparr>"

section \<open>Properties\<close>

text \<open>
  What validation accepts: a known transport and positive limits; the limiters and the
  concurrency bound that are then built have the configured values. The retries are not among them:
  any number passes.
\<close>

lemma validated_engine:
  assumes "validate c = None"
  shows "cfg_transport c \<in> {''stdio'', ''http''} \<and>
    en_max_concurrency (build_engine c E X) = cfg_max_concurrency c \<and> 0 < cfg_max_concurrency c \<and>
    lc_rps (lim_cfg (rd_limiter (sy_rdap (build_system c X embedded w)))) = cfg_rdap_rps c \<and>
    lc_rps (lim_cfg (ws_limiter (sy_whois (build_system c X embedded w)))) = cfg_whois_rps c \<and>
    1 \<le> lc_burst (lim_cfg (rd_limiter (sy_rdap (build_system c X embedded w)))) \<and>
    validate (c\<lparr>cfg_rdap_retries := k\<rparr>) = None"
proof -
  have burst: "(1::int) \<le> \<lfloor>max 1 (r :: rat)\<rfloor>" for r by (simp add: le_floor_iff)
  from assms show ?thesis
    using burst
    by (auto simp: validate_def build_engine_def engine_new_def build_system_def new_host_limiter_def Let_def
        split: if_splits)
qed

text \<open>
  Without flags, every knob whose variable is unset or empty or does not read has its
  default, and the program so configured passes validation, whatever the other variables hold.
\<close>

lemma defaults_valid:
  assumes "\<forall>key \<in> {''TRANSPORT'', ''MAX_CONCURRENCY'', ''RDAP_RPS'', ''WHOIS_RPS'', ''RDAP_RETRIES''}.
      en key = None \<or> en key = Some []"
    and "pf [] = None"
    and c_def: "c = load_config pf pd en no_flags"
  shows "validate c = None \<and> cfg_rdap_retries c = 2 \<and> cfg_max_concurrency c = 8 \<and>
    never_panics (build_engine c E X)"
proof -
  have "atoi [] = None" by (simp add: atoi_def)
  with assms(1,2) have c: "cfg_transport c = ''stdio''" "cfg_max_concurrency c = 8" "cfg_rdap_rps c = 5"
    "cfg_whois_rps c = 1" "cfg_rdap_retries c = 2"
    by (auto simp: c_def load_config_def no_flags_def flag_var_def env_string_def env_int_def env_float_def)
  then show ?thesis using engine_never_panics [of c E X] by (simp add: validate_def)
qed

end
