(* ===== verification/Serve.thy ===== *)
theory Serve
  imports Tools Config
begin

text \<open>
  The outer layer: the tools as the server registers them (\<^theory_text>\<open>internal/mcpserver/tools.go\<close>), the routes
  of its HTTP transport (\<^theory_text>\<open>server.go\<close>), and the program from its configuration to its exit code
  (\<^theory_text>\<open>cmd/domain-lens-mcp/main.go\<close>). The MCP protocol itself is the SDK's: a call arrives here with its
  arguments decoded, and serving is an argument of the program.
\<close>

section \<open>Tools\<close>

datatype tool_call =
    CheckDomainInput string bool
  | CheckDomainsInput "string list" bool bool
  | GetDomainInfoInput string
  | SuggestDomainsInput suggest_input

datatype tool_output =
    CheckedDomain check_result
  | CheckedDomains check_domains_output
  | FoundInfo domain_info
  | Suggested suggest_result

fun tool_name :: "tool_call \<Rightarrow> string" where
  "tool_name (CheckDomainInput d raw) = ''check_domain''"
| "tool_name (CheckDomainsInput ds only raw) = ''check_domains''"
| "tool_name (GetDomainInfoInput d) = ''get_domain_info''"
| "tool_name (SuggestDomainsInput i) = ''suggest_domains''"

text \<open>\<^theory_text>\<open>textResult\<close>: the output once more as JSON text; \<open>encode\<close> is \<^theory_text>\<open>json.MarshalIndent\<close>.\<close>

definition text_result :: "(tool_output \<Rightarrow> string option) \<Rightarrow> tool_output \<Rightarrow> string" where
  "text_result encode out =
     (case encode out of None \<Rightarrow> ''failed to encode result'' | Some text \<Rightarrow> text)"

fun reply :: "(tool_output \<Rightarrow> string option) \<Rightarrow> ('a \<Rightarrow> tool_output) \<Rightarrow> 'a res \<times> 'b \<Rightarrow> (string \<times> tool_output) res \<times> 'b" where
  "reply encode f (Ok x, st) = (Ok (text_result encode (f x), f x), st)"
| "reply encode f (Err e, st) = (Err e, st)"
| "reply encode f (Panic, st) = (Panic, st)"

text \<open>
  The handler registered for each tool. The schedule and the flag are those of a single check, the
  jobs those of a batch.
\<close>

definition handle_tool ::
  "config \<Rightarrow> 'w env \<Rightarrow> externals \<Rightarrow> (tool_output \<Rightarrow> string option) \<Rightarrow> nat list \<Rightarrow> bool \<Rightarrow> job list \<Rightarrow> tool_call \<Rightarrow>
   'w system engine_state \<Rightarrow> (string \<times> tool_output) res \<times> 'w system engine_state" where
  "handle_tool c E X encode schedule join jobs call st =
     (case call of
        CheckDomainInput d raw \<Rightarrow> reply encode CheckedDomain (check_domain c E X schedule join d raw st)
      | CheckDomainsInput ds only raw \<Rightarrow> reply encode CheckedDomains (check_domains c E X jobs ds only raw st)
      | GetDomainInfoInput d \<Rightarrow>
          (let (m, fl, s) = st; (result, s1) = get_domain_info c E X schedule d s
           in reply encode FoundInfo (result, m, fl, s1))
      | SuggestDomainsInput i \<Rightarrow> reply encode Suggested (suggest_domains c E X jobs i st))"

text \<open>The names a batch tool checks, and the answers in an output.\<close>

definition batch_inputs :: "externals \<Rightarrow> tool_call \<Rightarrow> string list" where
  "batch_inputs X call =
     (case call of
        CheckDomainsInput ds only raw \<Rightarrow> ds
      | SuggestDomainsInput i \<Rightarrow>
          (let req = suggest_request_of i in map cd_domain (chosen_candidates req (expand X req)))
      | _ \<Rightarrow> [])"

fun output_checks :: "tool_output \<Rightarrow> check_result list" where
  "output_checks (CheckedDomain r) = [r]"
| "output_checks (CheckedDomains out) = co_results out"
| "output_checks (FoundInfo i) = []"
| "output_checks (Suggested out) = su_results out"

section \<open>The HTTP transport\<close>

datatype http_answer = McpSession | Plain int string

text \<open>
  The two patterns of the \<^theory_text>\<open>ServeMux\<close>: \<^theory_text>\<open>/mcp\<close> for every method, and \<^theory_text>\<open>GET /healthz\<close>, which also takes
  \<^theory_text>\<open>HEAD\<close> and refuses the other methods. Paths are as the mux matches them, cleaned.
\<close>

definition health_body :: string where
  "health_body = ''{'' @ [CHR 0x22] @ ''status'' @ [CHR 0x22] @ '':'' @ [CHR 0x22] @ ''ok'' @ [CHR 0x22] @ ''}''"

definition route :: "string \<Rightarrow> string \<Rightarrow> http_answer" where
  "route http_method path =
     (if path = ''/mcp'' then McpSession
      else if path = ''/healthz''
      then (if http_method \<in> {''GET'', ''HEAD''} then Plain 200 health_body else Plain 405 ''Method Not Allowed'')
      else Plain 404 ''404 page not found'')"

section \<open>Starting and ending\<close>

text \<open>\<^theory_text>\<open>slog.Level\<close> with its \<^theory_text>\<open>UnmarshalText\<close>: a name in any letter case with an optional offset.\<close>

definition level_of_name :: "string \<Rightarrow> int option" where
  "level_of_name level_name =
     (let l = map lower_char level_name
      in if l = ''debug'' then Some (- 4)
         else if l = ''info'' \<or> l = [CHR 0xC4, CHR 0xB1] @ ''nfo'' then Some 0
         else if l = ''warn'' then Some 4
         else if l = ''error'' then Some 8
         else None)"

definition unmarshal_level :: "string \<Rightarrow> int option" where
  "unmarshal_level s =
     (case index_any s ''+-'' of
        None \<Rightarrow> level_of_name s
      | Some i \<Rightarrow>
          (case atoi (drop i s) of
             None \<Rightarrow> None
           | Some offset \<Rightarrow> map_option (\<lambda>base. wrap64 (base + offset)) (level_of_name (take i s))))"

definition level_info :: int where "level_info = 0"

definition parse_level :: "string \<Rightarrow> int" where
  "parse_level value = (case unmarshal_level value of None \<Rightarrow> level_info | Some level \<Rightarrow> level)"

text \<open>
  \<^theory_text>\<open>run\<close>: the health probe comes before validation; then the transport is served until its end.
\<close>

datatype transport = ServeHttp string | ServeStdio

definition transport_of :: "config \<Rightarrow> transport" where
  "transport_of c = (if cfg_transport c = ''http'' then ServeHttp (cfg_http_addr c) else ServeStdio)"

text \<open>
  \<^theory_text>\<open>RunHTTP\<close>: the end of the listener, which always has an error, or the end of the context, whichever
  the \<^theory_text>\<open>select\<close> takes; then the server has ten seconds to finish its requests. Waiting and \<^theory_text>\<open>Shutdown\<close>
  are those of \<^theory_text>\<open>net/http\<close>, \<^theory_text>\<open>stdio\<close> is the SDK's \<^theory_text>\<open>Run\<close>.
\<close>

datatype http_event = ListenerEnded go_error | HttpCtxDone

definition run_http ::
  "(string \<Rightarrow> 'w \<Rightarrow> http_event \<times> 'w) \<Rightarrow> (duration \<Rightarrow> 'w \<Rightarrow> go_error option \<times> 'w) \<Rightarrow> string \<Rightarrow> 'w \<Rightarrow> go_error option \<times> 'w" where
  "run_http listen shutdown addr w =
     (case listen addr w of
        (ListenerEnded e, w1) \<Rightarrow> (Some e, w1)
      | (HttpCtxDone, w1) \<Rightarrow> shutdown (10 * second) w1)"

fun serve_transport ::
  "('w \<Rightarrow> go_error option \<times> 'w) \<Rightarrow> (string \<Rightarrow> 'w \<Rightarrow> http_event \<times> 'w) \<Rightarrow> (duration \<Rightarrow> 'w \<Rightarrow> go_error option \<times> 'w) \<Rightarrow>
   transport \<Rightarrow> 'w \<Rightarrow> go_error option \<times> 'w" where
  "serve_transport stdio listen shutdown (ServeHttp addr) w = run_http listen shutdown addr w"
| "serve_transport stdio listen shutdown ServeStdio w = stdio w"

definition run_main ::
  "(string \<Rightarrow> (string \<times> string) option) \<Rightarrow> 'w env \<Rightarrow> (transport \<Rightarrow> 'w \<Rightarrow> go_error option \<times> 'w) \<Rightarrow> config \<Rightarrow> 'w \<Rightarrow>
   go_error option \<times> 'w" where
  "run_main split E serve c w =
     (if cfg_healthcheck c then probe_health split E (cfg_http_addr c) w
      else case validate c of
        Some e \<Rightarrow> (Some e, w)
      | None \<Rightarrow> serve (transport_of c) w)"

text \<open>
  \<^theory_text>\<open>main\<close>: a cancelled context, which is how a signal ends the program, is not a failure. The context of
  the program has no deadline, so \<open>ContextErr\<close> is \<^theory_text>\<open>context.Canceled\<close> here.
\<close>

definition exit_code :: "go_error option \<Rightarrow> nat" where
  "exit_code result =
     (case result of
        None \<Rightarrow> 0
      | Some e \<Rightarrow> if list_ex (\<lambda>x. x = ContextErr) (error_chain e) then 0 else 1)"

definition main_program ::
  "(string \<Rightarrow> (string \<times> string) option) \<Rightarrow> 'w env \<Rightarrow> ('w \<Rightarrow> go_error option \<times> 'w) \<Rightarrow> (string \<Rightarrow> 'w \<Rightarrow> http_event \<times> 'w) \<Rightarrow>
   (duration \<Rightarrow> 'w \<Rightarrow> go_error option \<times> 'w) \<Rightarrow> config \<Rightarrow> 'w \<Rightarrow> nat \<times> 'w" where
  "main_program split E stdio listen shutdown c w =
     (let (result, w1) = run_main split E (serve_transport stdio listen shutdown) c w in (exit_code result, w1))"

section \<open>The purge loop\<close>

definition cache_purge_interval :: duration where "cache_purge_interval = 5 * minute"

datatype loop_event = Tick | CtxDone

text \<open>
  \<^theory_text>\<open>purgeCachePeriodically\<close> over the events of its \<^theory_text>\<open>select\<close>, each with what the rest of the program does
  to the engine before the event; it returns when the context is done.
\<close>

fun purge_loop ::
  "('s \<Rightarrow> time) \<Rightarrow> (('s engine_state \<Rightarrow> 's engine_state) \<times> loop_event) list \<Rightarrow> 's engine_state \<Rightarrow>
   bool \<times> 's engine_state" where
  "purge_loop now [] st = (False, st)"
| "purge_loop now ((others, Tick) # events) st = purge_loop now events (purge_cache now (others st))"
| "purge_loop now ((others, CtxDone) # events) st = (True, others st)"

section \<open>Lemmas\<close>

lemma reply_OkE:
  assumes "reply encode f p = (Ok (text, out), st)"
  obtains x where "p = (Ok x, st)" "out = f x" "text = text_result encode (f x)"
  using assms by (cases p; cases "fst p") auto

abbreviation confirmed :: "check_result \<Rightarrow> bool" where
  "confirmed r \<equiv> \<exists>q \<in> set (cr_sources r). pr_registration q = RegistrationNotRegistered \<and>
     pr_provider q \<in> {rdap_name, whois_name} \<and> pr_status q = StatusAvailable"

text \<open>The answers of a batch tool are those of its inputs.\<close>

lemma check_domains_results:
  assumes "good c E X st" and "check_domains c E X jobs ds only raw st = (Ok out, st1)"
    and "mset (map fst jobs) = mset [0..<length ds]"
  shows "good c E X st1 \<and> (\<forall>r \<in> set (co_results out). \<exists>d \<in> set ds.
    answered X (primary_sources c E X) (corroborating_sources c E) d r)"
proof -
  from assms(2) obtain rs where run: "check_many X (system_now E) (build_engine c E X) jobs ds raw st = (Ok rs, st1)"
    and out: "out = summarize only rs \<lparr>co_results = [],
      co_summary = \<lparr>bs_total = length rs, bs_available = 0, bs_unavailable = 0, bs_unknown = 0\<rparr>\<rparr>"
    by (auto simp: check_domains_def split: if_splits prod.splits res.splits)
  note many = many_good [OF assms(1) run assms(3)]
  have "set (co_results out) \<subseteq> set rs" by (auto simp: out summarize_eq)
  moreover have "\<exists>d \<in> set ds. answered X (primary_sources c E X) (corroborating_sources c E) d r" if "r \<in> set rs" for r
  proof -
    from that many obtain k where "k < length ds" "r = rs ! k" by (metis in_set_conv_nth)
    with many show ?thesis using nth_mem by blast
  qed
  ultimately show ?thesis using many by blast
qed

lemma suggest_domains_results:
  assumes "good c E X st" and "suggest_domains c E X jobs i st = (Ok out, st1)"
    and "mset (map fst jobs) = mset [0..<length (batch_inputs X (SuggestDomainsInput i))]"
  shows "good c E X st1 \<and> (\<forall>r \<in> set (su_results out). \<exists>d.
    answered X (primary_sources c E X) (corroborating_sources c E) d r)"
proof -
  let ?chosen = "chosen_candidates (suggest_request_of i) (expand X (suggest_request_of i))"
  obtain rs where run: "check_many X (system_now E) (build_engine c E X) jobs (map cd_domain ?chosen) False st = (Ok rs, st1)"
    and checked: "su_checked out = length ?chosen"
    using assms(2) by (rule suggest_domains_OkE)
  have jobs: "mset (map fst jobs) = mset [0..<length (map cd_domain ?chosen)]"
    using assms(3) by (simp add: batch_inputs_def Let_def)
  have "mset (map fst jobs) = mset [0..<su_checked out]" using jobs checked by simp
  then have "\<exists>d. answered X (primary_sources c E X) (corroborating_sources c E) d r" if "r \<in> set (su_results out)" for r
    by (rule suggest_domains_pairs [OF assms(1,2)]) (use that in auto)
  then show ?thesis using many_good [OF assms(1) run jobs] by auto
qed

lemma exit_code_0: "exit_code r = 0 \<longleftrightarrow> r = None \<or> (\<exists>e. r = Some e \<and> ContextErr \<in> set (error_chain e))"
  by (auto simp: exit_code_def list_ex_iff split: option.split)

lemma fst_main_program:
  "fst (main_program split E stdio listen shutdown c w) = exit_code (fst (run_main split E (serve_transport stdio listen shutdown) c w))"
  by (simp add: main_program_def split: prod.split)

lemma purge_loop_append:
  "purge_loop now (events @ [(others, Tick)]) st =
     (let (returned, st1) = purge_loop now events st
      in if returned then (True, st1) else (False, purge_cache now (others st1)))"
  by (induction now events st rule: purge_loop.induct) simp_all

text \<open>
  Whatever tool is called, every answer \<open>available\<close> in its output is confirmed by RDAP or WHOIS, and
  the state it leaves keeps this for the calls to come; registration details that say \<open>not registered\<close>
  are only given for a name whose verdict was \<open>available\<close>.
\<close>

lemma tools_available_confirmed:
  assumes "good c E X (m, fl, s)"
    and "handle_tool c E X encode schedule join jobs call (m, fl, s) = (Ok (text, out), st1)"
    and "mset (map fst jobs) = mset [0..<length (batch_inputs X call)]"
  shows "good c E X st1 \<and> (\<forall>r \<in> set (output_checks out). cr_availability r = AvailabilityAvailable \<longrightarrow> confirmed r) \<and>
    (\<forall>i. out = FoundInfo i \<and> \<not> di_registered i \<longrightarrow> (\<exists>n r s1. parse X (di_domain i) = Inr n \<and>
       check_name (system_now E) schedule (build_engine c E X) n s = (Ok r, s1) \<and>
       cr_availability r = AvailabilityAvailable))"
proof (cases call)
  case (CheckDomainInput d raw)
  with assms(2) obtain r where r: "check_domain c E X schedule join d raw (m, fl, s) = (Ok r, st1)" "out = CheckedDomain r"
    by (auto simp: handle_tool_def elim: reply_OkE)
  then have "run_check c E X schedule join d raw (m, fl, s) = (Ok r, st1)"
    by (simp add: check_domain_def split: if_splits)
  from check_good [OF assms(1) this] answered_confirmed r(2) show ?thesis by auto
next
  case (CheckDomainsInput ds only raw)
  with assms(2) obtain o2 where r: "check_domains c E X jobs ds only raw (m, fl, s) = (Ok o2, st1)" "out = CheckedDomains o2"
    by (auto simp: handle_tool_def elim: reply_OkE)
  have "mset (map fst jobs) = mset [0..<length ds]" using assms(3) by (simp add: CheckDomainsInput batch_inputs_def)
  from check_domains_results [OF assms(1) r(1) this] answered_confirmed r(2) show ?thesis by fastforce
next
  case (GetDomainInfoInput d)
  obtain result s1 where info: "get_domain_info c E X schedule d s = (result, s1)" by fastforce
  with assms(2) GetDomainInfoInput obtain i where i: "result = Ok i" "out = FoundInfo i" "st1 = (m, fl, s1)"
    by (auto simp: handle_tool_def elim: reply_OkE)
  then have run: "engine_info X (system_now E) (build_engine c E X) schedule d s = (Ok i, s1)"
    using info by (simp add: get_domain_info_def split: if_splits)
  then obtain n where n: "parse X d = Inr n" by (cases "parse X d") (simp_all add: engine_info_def)
  with run obtain r s2 where r: "check_name (system_now E) schedule (build_engine c E X) n s = (Ok r, s2)"
    by (cases "check_name (system_now E) schedule (build_engine c E X) n s"; cases "fst (check_name (system_now E) schedule (build_engine c E X) n s)")
       (auto simp: engine_info_def)
  from info_verdict [OF n r] run have "cr_availability r = (if di_registered i then AvailabilityUnavailable else AvailabilityAvailable)"
    and "di_domain i = d"
    by simp_all
  with r n i assms(1) show ?thesis by (auto simp: good_state_def)
next
  case (SuggestDomainsInput i)
  with assms(2) obtain o2 where r: "suggest_domains c E X jobs i (m, fl, s) = (Ok o2, st1)" "out = Suggested o2"
    by (auto simp: handle_tool_def elim: reply_OkE)
  from suggest_domains_results [OF assms(1) r(1)] assms(3) SuggestDomainsInput
  have "good c E X st1" "\<forall>r \<in> set (su_results o2). \<exists>d. answered X (primary_sources c E X) (corroborating_sources c E) d r"
    by simp_all
  with answered_confirmed r(2) show ?thesis by fastforce
qed

section \<open>Properties\<close>

text \<open>
  C36: how the program ends: a health check succeeds exactly on the status 200 that the server's own
  route gives; an invalid configuration ends with code 1 before anything is served or asked; over HTTP
  the code is 0 exactly when the listener's error is the cancelled context, or when after the end of the
  context the requests in flight finish without an error; over stdio it is 0 exactly when the session
  ends without an error or cancelled.
\<close>

theorem program_exit:
  "let main = main_program split E stdio listen shutdown in
   (\<forall>host port code retry body w1. split (cfg_http_addr c) = Some (host, port) \<and> cfg_healthcheck c \<and>
      e_http_get E (''http://'' @ join_host_port (if host \<in> {[], ''0.0.0.0'', ''::''} then ''127.0.0.1'' else host) port @ ''/healthz'') w =
        (HttpReply code retry body, w1) \<longrightarrow>
      main c w = (if route ''GET'' ''/healthz'' = Plain code health_body then 0 else 1, w1)) \<and>
   (\<not> cfg_healthcheck c \<and> validate c \<noteq> None \<longrightarrow> main c w = (1, w)) \<and>
   (\<not> cfg_healthcheck c \<and> validate c = None \<and> cfg_transport c = ''http'' \<longrightarrow>
      (fst (main c w) = 0 \<longleftrightarrow>
       (case listen (cfg_http_addr c) w of
          (ListenerEnded e, w1) \<Rightarrow> ContextErr \<in> set (error_chain e)
        | (HttpCtxDone, w1) \<Rightarrow> fst (shutdown (10 * second) w1) = None \<or>
            (\<exists>e. fst (shutdown (10 * second) w1) = Some e \<and> ContextErr \<in> set (error_chain e))))) \<and>
   (\<not> cfg_healthcheck c \<and> validate c = None \<and> cfg_transport c \<noteq> ''http'' \<longrightarrow>
      (fst (main c w) = 0 \<longleftrightarrow>
       fst (stdio w) = None \<or> (\<exists>e. fst (stdio w) = Some e \<and> ContextErr \<in> set (error_chain e))))"
proof (cases "cfg_healthcheck c")
  case True
  then show ?thesis
    by (auto simp: main_program_def run_main_def probe_health_def exit_code_def route_def Let_def)
next
  case False
  have refused: "exit_code (Some e) = 1" if "validate c = Some e" for e
    using that by (auto simp: validate_def exit_code_def split: if_splits)
  show ?thesis
  proof (cases "validate c")
    case (Some e)
    with False refused show ?thesis by (simp add: main_program_def run_main_def Let_def)
  next
    case None
    with False show ?thesis
      by (simp add: Let_def fst_main_program run_main_def transport_of_def run_http_def exit_code_0 split: prod.split http_event.split)
  qed
qed

theorem program_exit_witness:
  "main_program (\<lambda>_. Some ([], ''8080'')) script_env (\<lambda>w. (None, w)) (\<lambda>a w. (HttpCtxDone, w)) (\<lambda>d w. (None, w))
      (sample_config\<lparr>cfg_healthcheck := True\<rparr>) (idle_script\<lparr>sc_http := [HttpReply 200 [] None]\<rparr>) =
    (0, idle_script\<lparr>sc_http := []\<rparr>)"
proof -
  let ?h = "sample_config\<lparr>cfg_healthcheck := True\<rparr>"
  let ?w = "idle_script\<lparr>sc_http := [HttpReply 200 [] None]\<rparr>"
  have "e_http_get script_env (''http://'' @ join_host_port (if [] \<in> {[], ''0.0.0.0'', ''::''} then ''127.0.0.1'' else []) ''8080'' @ ''/healthz'') ?w =
        (HttpReply 200 [] None, idle_script\<lparr>sc_http := []\<rparr>)" and "cfg_healthcheck ?h"
    by (simp_all add: idle_script_def)
  with program_exit [where c = ?h and split = "\<lambda>_. Some ([], ''8080'')" and E = script_env and w = ?w
      and stdio = "\<lambda>w. (None, w)" and listen = "\<lambda>a w. (HttpCtxDone, w)" and shutdown = "\<lambda>d w. (None, w)", unfolded Let_def]
  have "main_program (\<lambda>_. Some ([], ''8080'')) script_env (\<lambda>w. (None, w)) (\<lambda>a w. (HttpCtxDone, w)) (\<lambda>d w. (None, w)) ?h ?w =
      (if route ''GET'' ''/healthz'' = Plain 200 health_body then 0 else 1, idle_script\<lparr>sc_http := []\<rparr>)" by blast
  then show ?thesis by (simp add: route_def)
qed

text \<open>
  C37: with a purge every five minutes, no expired answer stays in memory for five minutes: after a
  tick, and after any stores, lookups and purges until the next one, every entry expires less than
  five minutes ago at the earliest.
\<close>

theorem purge_loop_bounds_memory:
  assumes "purge_loop now (events @ [(others, Tick)]) st = (False, m, fl, s)"
    and "\<forall>(t, op) \<in> set ops. now s \<le> t" and "u \<le> now s + cache_purge_interval"
    and "cache_run ttl ops m key = Some e"
  shows "u < ce_expires_at e + cache_purge_interval"
proof -
  obtain returned st1 where "purge_loop now events st = (returned, st1)" by (metis surj_pair)
  with assms(1) have "(m, fl, s) = purge_cache now (others st1)"
    by (simp add: purge_loop_append split: if_splits)
  then obtain m1 where "m = cache_purge (now s) m1"
    by (auto simp: purge_cache_def split: prod.splits)
  then have "\<forall>k e. m k = Some e \<longrightarrow> now s < ce_expires_at e"
    by (auto simp: cache_purge_def split: option.splits if_splits)
  from cache_run_unexpired [OF this assms(2)] assms(4) have "now s < ce_expires_at e" by blast
  with assms(3) show ?thesis by simp
qed

theorem purge_loop_bounds_memory_witness:
  "\<exists>e. fst (snd (purge_loop id [(\<lambda>st. ([''a.io'' \<mapsto> \<lparr>ce_result = sample_check, ce_expires_at = 10\<rparr>], Map.empty, 7), Tick)]
      (Map.empty, Map.empty, 0))) ''a.io'' = Some e \<and> 7 < ce_expires_at e + cache_purge_interval"
proof -
  let ?e = "\<lparr>ce_result = sample_check, ce_expires_at = 10\<rparr>"
  have run: "purge_loop id ([] @ [(\<lambda>st. ([''a.io'' \<mapsto> ?e], Map.empty, 7), Tick)]) (Map.empty, Map.empty, 0) =
      (False, [''a.io'' \<mapsto> ?e], Map.empty, 7)"
    by (auto simp: purge_cache_def cache_purge_def)
  have "7 < ce_expires_at ?e + cache_purge_interval"
    by (rule purge_loop_bounds_memory [OF run, where ops = "[]" and key = "''a.io''"])
       (simp_all add: cache_purge_interval_def minute_def)
  with run show ?thesis by simp
qed

end
