(* ===== verification/Refresh.thy ===== *)
theory Refresh
  imports RdapBootstrap Flights
begin

text \<open>
  Lookups in the RDAP registry that run at the same time (\<^theory_text>\<open>BaseURLs\<close> and \<^theory_text>\<open>tryRefresh\<close> of
  \<^theory_text>\<open>internal/provider/rdap/bootstrap.go\<close>). \<open>RdapBootstrap\<close> runs one lookup from start to end; here every
  lookup is cut at each lock it takes, with the fetch between \<^theory_text>\<open>TryLock\<close> and \<^theory_text>\<open>Unlock\<close> as a step of its
  own. \<open>bs_refreshing\<close> is the state of the refresh mutex.
\<close>

datatype lookup =
    Checking
  | Trying
  | Locked
  | Fetched "go_error + services \<times> time"
  | Reading
  | Got "string list"

record 'w lookups =
  lk_registry :: bootstrap
  lk_world :: 'w
  lk_calls :: "lookup list"

definition lookups_start :: "bootstrap \<Rightarrow> 'w \<Rightarrow> nat \<Rightarrow> 'w lookups" where
  "lookups_start b w k = \<lparr>lk_registry = b\<lparr>bs_refreshing := False\<rparr>, lk_world = w, lk_calls = replicate k Checking\<rparr>"

definition lookup_is :: "'w lookups \<Rightarrow> nat \<Rightarrow> lookup \<Rightarrow> bool" where
  "lookup_is s i c = (i < length (lk_calls s) \<and> lk_calls s ! i = c)"

definition set_lookup :: "nat \<Rightarrow> lookup \<Rightarrow> bootstrap \<Rightarrow> 'w \<Rightarrow> 'w lookups \<Rightarrow> 'w lookups" where
  "set_lookup i c b w s = \<lparr>lk_registry = b, lk_world = w, lk_calls = (lk_calls s)[i := c]\<rparr>"

text \<open>What the critical section of \<^theory_text>\<open>tryRefresh\<close> does with the result of the fetch.\<close>

definition apply_fetch :: "go_error + services \<times> time \<Rightarrow> time \<Rightarrow> bootstrap \<Rightarrow> bootstrap" where
  "apply_fetch result now b =
     (case result of
        Inl e \<Rightarrow> b\<lparr>bs_fetched_at := now - bs_ttl b + minute\<rparr>
      | Inr (services, publication) \<Rightarrow>
          b\<lparr>bs_services := services, bs_publication := publication, bs_fetched_at := now\<rparr>)"

inductive lookup_step ::
  "'w env \<Rightarrow> externals \<Rightarrow> (nat \<Rightarrow> string) \<Rightarrow> 'w lookups \<Rightarrow> nat \<Rightarrow> 'w lookups \<Rightarrow> bool"
  for E X tld where
  check: "lookup_is s i Checking \<Longrightarrow>
    lookup_step E X tld s i
      (set_lookup i (if stale (lk_registry s) (e_now E (lk_world s)) then Trying else Reading) (lk_registry s) (lk_world s) s)"
| busy: "lookup_is s i Trying \<Longrightarrow> bs_refreshing (lk_registry s) \<Longrightarrow>
    lookup_step E X tld s i (set_lookup i Reading (lk_registry s) (lk_world s) s)"
| lock: "lookup_is s i Trying \<Longrightarrow> \<not> bs_refreshing (lk_registry s) \<Longrightarrow>
    lookup_step E X tld s i (set_lookup i Locked ((lk_registry s)\<lparr>bs_refreshing := True\<rparr>) (lk_world s) s)"
| too_late: "lookup_is s i Locked \<Longrightarrow> \<not> stale (lk_registry s) (e_now E (lk_world s)) \<Longrightarrow>
    lookup_step E X tld s i (set_lookup i Reading ((lk_registry s)\<lparr>bs_refreshing := False\<rparr>) (lk_world s) s)"
| do_fetch: "lookup_is s i Locked \<Longrightarrow> stale (lk_registry s) (e_now E (lk_world s)) \<Longrightarrow>
    fetch E X (lk_world s) = (result, w) \<Longrightarrow>
    lookup_step E X tld s i (set_lookup i (Fetched result) (lk_registry s) w s)"
| unlock: "lookup_is s i (Fetched result) \<Longrightarrow>
    lookup_step E X tld s i
      (set_lookup i Reading ((apply_fetch result (e_now E (lk_world s)) (lk_registry s))\<lparr>bs_refreshing := False\<rparr>) (lk_world s) s)"
| read: "lookup_is s i Reading \<Longrightarrow>
    lookup_step E X tld s i
      (set_lookup i (Got (case bs_services (lk_registry s) (tld i) of None \<Rightarrow> [] | Some urls \<Rightarrow> urls))
         (lk_registry s) (lk_world s) s)"

text \<open>A run: steps of the lookups, and changes of the world around them.\<close>

inductive lookups_run :: "'w env \<Rightarrow> externals \<Rightarrow> (nat \<Rightarrow> string) \<Rightarrow> 'w lookups \<Rightarrow> 'w lookups \<Rightarrow> bool"
  for E X tld where
  refl: "lookups_run E X tld s s"
| own: "lookups_run E X tld s t \<Longrightarrow> lookup_step E X tld t i u \<Longrightarrow> lookups_run E X tld s u"
| outside: "lookups_run E X tld s t \<Longrightarrow> lookups_run E X tld s (t\<lparr>lk_world := w\<rparr>)"

section \<open>The mutex has one holder\<close>

fun holds_refresh :: "lookup \<Rightarrow> bool" where
  "holds_refresh Locked = True"
| "holds_refresh (Fetched result) = True"
| "holds_refresh _ = False"

fun lookup_ok :: "lookup \<Rightarrow> bool" where
  "lookup_ok (Fetched (Inr (services, publication))) = good_services services"
| "lookup_ok (Got urls) = (urls = [] \<or> ordered_urls urls)"
| "lookup_ok _ = True"

definition lookups_inv :: "'w lookups \<Rightarrow> bool" where
  "lookups_inv s =
     (good_services (bs_services (lk_registry s)) \<and> list_all lookup_ok (lk_calls s) \<and>
      length (filter holds_refresh (lk_calls s)) = (if bs_refreshing (lk_registry s) then 1 else 0))"

lemma lookups_inv_set:
  assumes "lookups_inv s" and "lookup_is s i old" and "good_services (bs_services b)" and "lookup_ok c"
    and "bs_refreshing b = (if holds_refresh old then holds_refresh c else bs_refreshing (lk_registry s) \<or> holds_refresh c)"
    and "holds_refresh c \<Longrightarrow> \<not> holds_refresh old \<Longrightarrow> \<not> bs_refreshing (lk_registry s)"
  shows "lookups_inv (set_lookup i c b w s)"
proof -
  have i: "i < length (lk_calls s)" "lk_calls s ! i = old" using assms(2) by (simp_all add: lookup_is_def)
  have "list_all lookup_ok ((lk_calls s)[i := c])"
    using assms(1,4) set_update_subset_insert [of "lk_calls s" i c] by (auto simp: lookups_inv_def list_all_iff)
  moreover have held: "bs_refreshing (lk_registry s)" if "holds_refresh old"
  proof -
    from i that have "filter holds_refresh (lk_calls s) \<noteq> []" by (metis filter_empty_conv nth_mem)
    then show ?thesis using assms(1) by (simp add: lookups_inv_def split: if_splits)
  qed
  moreover note length_filter_update [OF i(1), of holds_refresh c]
  ultimately show ?thesis
    using assms(1,3,5,6) i(2) by (auto simp: lookups_inv_def set_lookup_def split: if_splits)
qed

lemma lookups_inv_phase: "lookups_inv s \<Longrightarrow> lookup_is s i c \<Longrightarrow> lookup_ok c"
  by (auto simp: lookups_inv_def lookup_is_def list_all_length)

lemma holder_refreshing: "lookups_inv s \<Longrightarrow> lookup_is s i c \<Longrightarrow> holds_refresh c \<Longrightarrow> bs_refreshing (lk_registry s)"
  by (auto simp: lookups_inv_def lookup_is_def filter_empty_conv split: if_splits)

lemma apply_fetch_good:
  "good_services (bs_services b) \<Longrightarrow> lookup_ok (Fetched result) \<Longrightarrow> good_services (bs_services (apply_fetch result t b))"
  by (auto simp: apply_fetch_def split: sum.split)

lemma fetch_ok: "fetch E X w = (result, w1) \<Longrightarrow> lookup_ok (Fetched result)"
  using fetch_good [of E X w] by (cases result) auto

lemma lookup_step_inv:
  assumes "lookup_step E X tld s i t" and "lookups_inv s"
  shows "lookups_inv t"
proof -
  have good: "good_services (bs_services (lk_registry s))" using assms(2) by (simp add: lookups_inv_def)
  note set = lookups_inv_set [OF assms(2)] and held = holder_refreshing [OF assms(2)]
  from assms(1) show ?thesis
  proof cases
    case check
    with set [OF check(2) good, of Trying] set [OF check(2) good, of Reading] show ?thesis by simp
  next
    case busy
    with set [OF busy(2) good, of Reading] show ?thesis by simp
  next
    case lock
    with set [OF lock(2), of "(lk_registry s)\<lparr>bs_refreshing := True\<rparr>" Locked] good show ?thesis by simp
  next
    case too_late
    with set [OF too_late(2), of "(lk_registry s)\<lparr>bs_refreshing := False\<rparr>" Reading] good show ?thesis by simp
  next
    case (do_fetch result w)
    with set [OF do_fetch(2) good fetch_ok [OF do_fetch(4)]] held [OF do_fetch(2)] show ?thesis by simp
  next
    case (unlock result)
    with set [OF unlock(2), of "(apply_fetch result (e_now E (lk_world s)) (lk_registry s))\<lparr>bs_refreshing := False\<rparr>" Reading]
      apply_fetch_good [OF good lookups_inv_phase [OF assms(2) unlock(2)]] show ?thesis by simp
  next
    case read
    have "lookup_ok (Got (case bs_services (lk_registry s) (tld i) of None \<Rightarrow> [] | Some urls \<Rightarrow> urls))"
      using good by (auto simp: good_services_def split: option.split)
    with read set [OF read(2) good this] show ?thesis by simp
  qed
qed

lemma lookups_run_inv: "lookups_run E X tld s t \<Longrightarrow> lookups_inv s \<Longrightarrow> lookups_inv t"
proof (induction rule: lookups_run.induct)
  case (own s t i u)
  with lookup_step_inv show ?case by blast
next
  case (outside s t w)
  then show ?case by (simp add: lookups_inv_def)
qed

lemma lookups_inv_start:
  "good_services (bs_services b) \<Longrightarrow> lookups_inv (lookups_start b w k)"
  by (simp add: lookups_inv_def lookups_start_def list_all_iff)

section \<open>No lookup waits for another\<close>

fun lookup_left :: "lookup \<Rightarrow> nat" where
  "lookup_left Checking = 5"
| "lookup_left Trying = 4"
| "lookup_left Locked = 3"
| "lookup_left (Fetched result) = 2"
| "lookup_left Reading = 1"
| "lookup_left (Got urls) = 0"

lemma lookup_can_step:
  assumes "lookup_is s i c" and "\<forall>urls. c \<noteq> Got urls"
  shows "\<exists>t. lookup_step E X tld s i t"
proof (cases c)
  case Checking
  with assms(1) show ?thesis using lookup_step.check by blast
next
  case Trying
  with assms(1) show ?thesis using lookup_step.busy lookup_step.lock by blast
next
  case Locked
  with assms(1) show ?thesis using lookup_step.too_late lookup_step.do_fetch by (metis surj_pair)
next
  case (Fetched result)
  with assms(1) show ?thesis using lookup_step.unlock by blast
next
  case Reading
  with assms(1) show ?thesis using lookup_step.read by blast
next
  case (Got urls)
  with assms(2) show ?thesis by simp
qed

lemma lookup_step_own:
  assumes "lookup_step E X tld s i t"
  shows "length (lk_calls t) = length (lk_calls s) \<and> i < length (lk_calls s) \<and>
    lookup_left (lk_calls t ! i) < lookup_left (lk_calls s ! i) \<and> (\<forall>j. j \<noteq> i \<longrightarrow> lk_calls t ! j = lk_calls s ! j)"
  using assms by cases (auto simp: lookup_is_def set_lookup_def)


text \<open>Steps of the lookup \<open>i\<close> alone, and their end.\<close>

abbreviation lookup_steps :: "'w env \<Rightarrow> externals \<Rightarrow> (nat \<Rightarrow> string) \<Rightarrow> nat \<Rightarrow> 'w lookups \<Rightarrow> 'w lookups \<Rightarrow> bool" where
  "lookup_steps E X tld i \<equiv> (\<lambda>s t. lookup_step E X tld s i t)\<^sup>*\<^sup>*"

lemma lookup_progress:
  "i < length (lk_calls s) \<Longrightarrow> \<nexists>urls. lookup_is s i (Got urls) \<Longrightarrow> \<exists>t. lookup_step E X tld s i t"
  using lookup_can_step [of s i "lk_calls s ! i" E X tld] by (auto simp: lookup_is_def)

interpretation lookup: terminating_steps "\<lambda>s t. lookup_step E X tld s i t" "\<lambda>s. i < length (lk_calls s)"
    "\<lambda>s. lookup_left (lk_calls s ! i)" "\<lambda>s. \<exists>urls. lookup_is s i (Got urls)" for E X tld i
  by unfold_locales (use lookup_step_own lookup_progress in fastforce)+

lemma lookup_ends:
  "i < length (lk_calls s) \<Longrightarrow> \<exists>t urls. lookup_steps E X tld i s t \<and> lookup_is t i (Got urls)"
  using lookup.completes by blast

section \<open>A lookup alone\<close>

text \<open>
  Where a lookup stands that nobody disturbs: \<open>b\<close> is the registry it found with the mutex free, \<open>w\<close> the
  world it began in.
\<close>

fun undisturbed :: "'w env \<Rightarrow> externals \<Rightarrow> string \<Rightarrow> bootstrap \<Rightarrow> 'w \<Rightarrow> lookup \<Rightarrow> bootstrap \<Rightarrow> 'w \<Rightarrow> bool" where
  "undisturbed E X tld b w Checking b1 w1 = (b1 = b \<and> w1 = w)"
| "undisturbed E X tld b w Trying b1 w1 = (stale b (e_now E w) \<and> b1 = b \<and> w1 = w)"
| "undisturbed E X tld b w Locked b1 w1 = (stale b (e_now E w) \<and> b1 = b\<lparr>bs_refreshing := True\<rparr> \<and> w1 = w)"
| "undisturbed E X tld b w (Fetched result) b1 w1 =
     (stale b (e_now E w) \<and> b1 = b\<lparr>bs_refreshing := True\<rparr> \<and> fetch E X w = (result, w1))"
| "undisturbed E X tld b w Reading b1 w1 =
     ((b1, w1) = (if stale b (e_now E w) then try_refresh E X b w else (b, w)))"
| "undisturbed E X tld b w (Got urls) b1 w1 = (base_urls E X tld b w = (urls, b1, w1))"

definition stands :: "'w env \<Rightarrow> externals \<Rightarrow> (nat \<Rightarrow> string) \<Rightarrow> nat \<Rightarrow> bootstrap \<Rightarrow> 'w \<Rightarrow> 'w lookups \<Rightarrow> bool" where
  "stands E X tld i b w s =
     (i < length (lk_calls s) \<and> undisturbed E X (tld i) b w (lk_calls s ! i) (lk_registry s) (lk_world s))"

lemma stale_refreshing [simp]: "stale (b\<lparr>bs_refreshing := x\<rparr>) now = stale b now"
  by (simp add: stale_def)

lemma apply_fetch_refreshing:
  "(apply_fetch result now (b\<lparr>bs_refreshing := x\<rparr>))\<lparr>bs_refreshing := y\<rparr> = (apply_fetch result now b)\<lparr>bs_refreshing := y\<rparr>"
  by (simp add: apply_fetch_def split: sum.split prod.split)

lemma apply_fetch_idle: "\<not> bs_refreshing b \<Longrightarrow> (apply_fetch result now b)\<lparr>bs_refreshing := False\<rparr> = apply_fetch result now b"
  by (simp add: apply_fetch_def split: sum.split prod.split)

lemma try_refresh_apply:
  "\<not> bs_refreshing b \<Longrightarrow> stale b (e_now E w) \<Longrightarrow> fetch E X w = (result, w1) \<Longrightarrow>
   try_refresh E X b w = (apply_fetch result (e_now E w1) b, w1)"
  by (simp add: try_refresh_def apply_fetch_def split: sum.split prod.split)

lemma stands_set:
  "lookup_is s i old \<Longrightarrow> undisturbed E X (tld i) b w c b1 w1 \<Longrightarrow> stands E X tld i b w (set_lookup i c b1 w1 s)"
  by (simp add: stands_def set_lookup_def lookup_is_def)

lemma stands_step:
  assumes "lookup_step E X tld s i t" and "stands E X tld i b w s" and "\<not> bs_refreshing b"
  shows "stands E X tld i b w t"
proof -
  have now: "undisturbed E X (tld i) b w c (lk_registry s) (lk_world s)" if "lookup_is s i c" for c
    using assms(2) that by (simp add: stands_def lookup_is_def)
  from assms(1) show ?thesis
  proof cases
    case check
    show ?thesis unfolding check(1)
      by (rule stands_set [OF check(2)]) (use now [OF check(2)] in simp)
  next
    case busy
    with now [OF busy(2)] assms(3) show ?thesis by simp
  next
    case lock
    show ?thesis unfolding lock(1)
      by (rule stands_set [OF lock(2)]) (use now [OF lock(2)] in simp)
  next
    case too_late
    with now [OF too_late(2)] show ?thesis by simp
  next
    case (do_fetch result w1)
    show ?thesis unfolding do_fetch(1)
      by (rule stands_set [OF do_fetch(2)]) (use now [OF do_fetch(2)] do_fetch(4) in simp)
  next
    case (unlock result)
    show ?thesis unfolding unlock(1)
      by (rule stands_set [OF unlock(2)])
         (use now [OF unlock(2)] assms(3) in \<open>simp add: apply_fetch_refreshing apply_fetch_idle try_refresh_apply\<close>)
  next
    case read
    show ?thesis unfolding read(1)
      by (rule stands_set [OF read(2)]) (use now [OF read(2)] in \<open>auto simp: base_urls_def split: prod.split\<close>)
  qed
qed

lemma stands_steps:
  "lookup_steps E X tld i s t \<Longrightarrow> stands E X tld i b w s \<Longrightarrow> \<not> bs_refreshing b \<Longrightarrow> stands E X tld i b w t"
  by (induction rule: rtranclp_induct) (auto intro: stands_step)

section \<open>Properties\<close>

text \<open>
  C17: lookups of a registry that run at the same time, with the world changing between their steps:
  the refresh mutex is locked exactly while one of them, and no more, is inside, the addresses any of them returns are ordered with
  \<^theory_text>\<open>https\<close> first, and none waits for another: from any point every lookup ends by its own steps.
\<close>

theorem registry_lookups_never_block:
  assumes "good_services (bs_services b)" and "lookups_run E X tld (lookups_start b w k) s"
  shows "length (filter holds_refresh (lk_calls s)) = (if bs_refreshing (lk_registry s) then 1 else 0) \<and>
    (\<forall>i urls. lookup_is s i (Got urls) \<longrightarrow> urls = [] \<or> ordered_urls urls) \<and>
    (\<forall>i < length (lk_calls s). \<exists>t urls. lookup_steps E X tld i s t \<and> lookup_is t i (Got urls) \<and>
       (urls = [] \<or> ordered_urls urls))"
proof -
  have inv: "lookups_inv s" by (rule lookups_run_inv [OF assms(2) lookups_inv_start [OF assms(1)]])
  have got: "urls = [] \<or> ordered_urls urls" if "lookups_inv t" "lookup_is t i (Got urls)" for t i urls
    using lookups_inv_phase [OF that] by simp
  have keeps: "lookups_inv t" if "lookup_steps E X tld i s t" for i t
    using that by (induction rule: rtranclp_induct) (auto intro: inv lookup_step_inv)
  have "\<exists>t urls. lookup_steps E X tld i s t \<and> lookup_is t i (Got urls) \<and> (urls = [] \<or> ordered_urls urls)"
    if "i < length (lk_calls s)" for i
    using lookup_ends [OF that] keeps got by meson
  with inv got [OF inv] show ?thesis by (auto simp: lookups_inv_def)
qed

theorem registry_lookups_never_block_witness:
  "\<exists>t urls. lookup_steps script_env plain_externals (\<lambda>_. ''io'') 1
      (lookups_start (new_bootstrap plain_externals [] 5) idle_script 2) t \<and> lookup_is t 1 (Got urls)"
proof -
  let ?b = "new_bootstrap plain_externals [] 5"
  have "good_services (bs_services ?b)"
    by (simp add: new_bootstrap_def parse_bootstrap_def plain_externals_def good_services_empty)
  from registry_lookups_never_block [OF this lookups_run.refl, where E = script_env and X = plain_externals
      and tld = "\<lambda>_. ''io''" and w = idle_script and k = 2]
  have "\<forall>i < 2. \<exists>t urls. lookup_steps script_env plain_externals (\<lambda>_. ''io'') i (lookups_start ?b idle_script 2) t \<and>
      lookup_is t i (Got urls)"
    by (simp add: lookups_start_def) blast
  then show ?thesis by simp
qed

text \<open>
  C18: a lookup that no other disturbs gives, over its locks and its fetch, the addresses, the registry
  and the world of \<open>base_urls\<close>: the function the RDAP client is modelled with is what the code does
  step by step.
\<close>

theorem lone_lookup_is_base_urls:
  assumes "\<not> bs_refreshing b" and "lookup_steps E X tld i (lookups_start b w k) s" and "i < k"
    and "lookup_is s i (Got urls)"
  shows "base_urls E X (tld i) b w = (urls, lk_registry s, lk_world s)"
proof -
  have "stands E X tld i b w (lookups_start b w k)"
    using assms(1,3) by (simp add: stands_def lookups_start_def)
  from stands_steps [OF assms(2) this assms(1)] assms(4) show ?thesis
    by (simp add: stands_def lookup_is_def)
qed

theorem lone_lookup_is_base_urls_witness:
  "\<exists>s urls. lookup_steps script_env plain_externals (\<lambda>_. ''io'') 0
      (lookups_start (new_bootstrap plain_externals [] 5) idle_script 1) s \<and>
    base_urls script_env plain_externals ''io'' (new_bootstrap plain_externals [] 5) idle_script = (urls, lk_registry s, lk_world s)"
proof -
  let ?b = "new_bootstrap plain_externals [] 5"
  let ?s = "lookups_start ?b idle_script 1"
  have b: "\<not> bs_refreshing ?b" by (simp add: new_bootstrap_def parse_bootstrap_def plain_externals_def)
  obtain s urls where s: "lookup_steps script_env plain_externals (\<lambda>_. ''io'') 0 ?s s" "lookup_is s 0 (Got urls)"
    using lookup_ends [of 0 ?s script_env plain_externals "\<lambda>_. ''io''"] by (force simp: lookups_start_def)
  from lone_lookup_is_base_urls [OF b s(1) _ s(2)] s(1) show ?thesis by auto
qed

end
