(* ===== verification/Decisive.thy ===== *)
theory Decisive
  imports System
begin

text \<open>
  From the replies of the network to the verdict: when the registry of a name is known and answers, the
  check reports what it says, in every interleaving of its goroutines with whatever other requests do in
  between. \<open>Engine\<close> and \<open>System\<close> show that nothing else makes a name available; here the answer is given.
\<close>

section \<open>A decisive first source\<close>

text \<open>
  \<open>A\<close> holds of the shared state all the time; in it the first source of the chain supports the name and
  gives a conclusive answer with \<open>Q\<close>, and every corroborating source answers with \<open>R\<close>.
\<close>

definition decisive ::
  "'s engine \<Rightarrow> name \<Rightarrow> ('s \<Rightarrow> bool) \<Rightarrow> (provider_result \<Rightarrow> bool) \<Rightarrow> ('s provider \<Rightarrow> provider_result \<Rightarrow> bool) \<Rightarrow> bool" where
  "decisive en n A Q R =
     (en_primary en \<noteq> [] \<and>
      (\<forall>s. A s \<longrightarrow> fst (pv_supports (hd (en_primary en)) n s) \<and> A (snd (pv_supports (hd (en_primary en)) n s)) \<and>
         (\<exists>r s1. run en (hd (en_primary en)) n s = (Ok r, s1) \<and> Q r \<and> pr_registration r \<noteq> RegistrationUnknown \<and> A s1)) \<and>
      (\<forall>q \<in> set (en_corroborating en). \<forall>s. A s \<longrightarrow> fst (pv_supports q n s) \<and> A (snd (pv_supports q n s)) \<and>
         (\<exists>r s1. run en q n s = (Ok r, s1) \<and> R q r \<and> A s1)))"

text \<open>The results of the corroborating sources, and results with a decisive one among them.\<close>

definition beside :: "'s engine \<Rightarrow> ('s provider \<Rightarrow> provider_result \<Rightarrow> bool) \<Rightarrow> provider_result \<Rightarrow> bool" where
  "beside en R r = (\<exists>q \<in> set (en_corroborating en). R q r)"

definition decided ::
  "(provider_result \<Rightarrow> bool) \<Rightarrow> (provider_result \<Rightarrow> bool) \<Rightarrow> provider_result list \<Rightarrow> bool" where
  "decided Q B results = (\<exists>r \<in> set results. Q r \<and> (\<forall>r2 \<in> set results. r2 = r \<or> B r2))"

lemma decided_more: "decided Q B rs \<Longrightarrow> B r \<Longrightarrow> decided Q B (rs @ [r])"
  by (fastforce simp: decided_def)

lemma decided_now: "list_all B rs \<Longrightarrow> Q r \<Longrightarrow> decided Q B (rs @ [r])"
  by (fastforce simp: decided_def list_all_iff)

text \<open>What then holds of a check at every point.\<close>

definition on_track ::
  "'s engine \<Rightarrow> ('s \<Rightarrow> bool) \<Rightarrow> (provider_result \<Rightarrow> bool) \<Rightarrow> ('s provider \<Rightarrow> provider_result \<Rightarrow> bool) \<Rightarrow>
   's check_state \<Rightarrow> bool" where
  "on_track en A Q R c =
     (A (ck_shared c) \<and> \<not> ck_panic c \<and> set (ck_pending c) \<subseteq> set (en_corroborating en) \<and>
      (\<forall>q \<in> set (en_corroborating en). q \<in> set (ck_pending c) \<or> list_ex (R q) (ck_results c)) \<and>
      (if ck_chain c = [] then decided Q (beside en R) (ck_results c)
       else ck_chain c = en_primary en \<and> list_all (beside en R) (ck_results c)))"

lemma on_track_start: "decisive en n A Q R \<Longrightarrow> A s \<Longrightarrow> on_track en A Q R (check_start en s)"
  by (simp add: on_track_def decisive_def check_start_def)

lemma on_track_step:
  assumes "decisive en n A Q R" and "\<forall>s t. A s \<and> interfere s t \<longrightarrow> A t"
    and "check_step en n interfere c d" and "on_track en A Q R c"
  shows "on_track en A Q R d"
  using assms(3)
proof cases
  case (corroborating before q after)
  from assms(4) corroborating have q: "q \<in> set (en_corroborating en)" and A: "A (ck_shared c)"
    by (auto simp: on_track_def)
  obtain s1 where s1: "pv_supports q n (ck_shared c) = (True, s1)" "A s1"
    using assms(1) q A unfolding decisive_def by (metis (full_types) prod.collapse)
  then obtain r s2 where run: "run en q n s1 = (Ok r, s2)" "R q r" "A s2"
    using assms(1) q unfolding decisive_def by blast
  then have d: "d = c\<lparr>ck_results := ck_results c @ [r], ck_shared := s2, ck_pending := before @ after\<rparr>"
    using corroborating(1) s1 by (simp add: corroborate_def)
  have "beside en R r" using q run(2) by (auto simp: beside_def)
  with decided_more assms(4) corroborating(3) run(2,3) show ?thesis
    unfolding d on_track_def by (auto split: if_splits)
next
  case (primary p ps)
  from assms(4) primary have p: "en_primary en = p # ps" and A: "A (ck_shared c)"
    and sides: "list_all (beside en R) (ck_results c)" by (auto simp: on_track_def)
  obtain s1 where s1: "pv_supports p n (ck_shared c) = (True, s1)" "A s1"
    using assms(1) p A unfolding decisive_def by (metis (full_types) list.sel(1) prod.collapse)
  then obtain r s2 where run: "run en p n s1 = (Ok r, s2)" "Q r" "pr_registration r \<noteq> RegistrationUnknown" "A s2"
    using assms(1) p unfolding decisive_def by (metis list.sel(1))
  then have d: "d = c\<lparr>ck_results := ck_results c @ [r], ck_chain := [], ck_shared := s2\<rparr>"
    using primary(1) s1 by (simp add: advance_def)
  from decided_now [where Q = Q, OF sides run(2)] assms(4) run(4) show ?thesis
    unfolding d on_track_def by auto
next
  case (other_requests s)
  with assms(2,4) show ?thesis by (auto simp: on_track_def)
qed

lemma on_track_steps:
  assumes "decisive en n A Q R" and "\<forall>s t. A s \<and> interfere s t \<longrightarrow> A t" and "A s"
    and "check_steps en n interfere (check_start en s) c"
  shows "on_track en A Q R c"
  using assms(4)
proof (induction rule: rtranclp_induct)
  case base
  from on_track_start [OF assms(1,3)] show ?case .
next
  case (step c d)
  from on_track_step [OF assms(1,2) step(2,3)] show ?case .
qed

lemma decisive_results:
  assumes "decisive en n A Q R" and "\<forall>s t. A s \<and> interfere s t \<longrightarrow> A t" and "A s"
    and "check_steps en n interfere (check_start en s) c" and "check_done c"
  shows "decided Q (beside en R) (ck_results c)"
    and "\<forall>q \<in> set (en_corroborating en). \<exists>r \<in> set (ck_results c). R q r"
  using on_track_steps [OF assms(1-4)] assms(5) by (auto simp: on_track_def check_done_def list_ex_iff)

section \<open>A registry that answers\<close>

text \<open>
  The hypotheses about the outside: the request for the name always gets the same reply, the NS lookup
  too; tokens and slots are granted, and the clock is past the zero time.
\<close>

definition steady :: "'w env \<Rightarrow> name \<Rightarrow> string \<Rightarrow> http_reply \<Rightarrow> ns_reply \<Rightarrow> bool" where
  "steady E n endpoint reply ns =
     (\<forall>w. 0 \<le> e_now E w \<and> fst (e_http_get E endpoint w) = reply \<and> fst (e_lookup_ns E (n_ascii n) w) = ns \<and>
        (\<forall>h. fst (e_rate_wait E h w) = Granted) \<and> fst (e_acquire_slot E w))"

lemma steadyD:
  assumes "steady E n endpoint reply ns"
  shows "0 \<le> e_now E w" and "fst (e_http_get E endpoint w) = reply" and "fst (e_lookup_ns E (n_ascii n) w) = ns"
    and "fst (e_rate_wait E h w) = Granted" and "fst (e_acquire_slot E w)"
  using assms unfolding steady_def by blast+

text \<open>The registry \<open>b\<close> is fresh and lists \<open>base\<close> first for the TLD; \<open>endpoint\<close> is the address of the name there.\<close>

definition knows :: "'w env \<Rightarrow> externals \<Rightarrow> name \<Rightarrow> bootstrap \<Rightarrow> string \<Rightarrow> string \<Rightarrow> bool" where
  "knows E X n b base endpoint =
     ((\<forall>w. \<not> stale b (e_now E w)) \<and> (\<exists>bases. bs_services b (n_tld n) = Some (base # bases)) \<and>
      x_join_path X base [''domain'', n_ascii n] = Some endpoint)"

text \<open>The RDAP source has this registry, and its breaker is closed for the host.\<close>

definition settled :: "externals \<Rightarrow> bootstrap \<Rightarrow> string \<Rightarrow> 'w system \<Rightarrow> bool" where
  "settled X b base s =
     (rd_bootstrap (sy_rdap s) = b \<and>
      (\<forall>t \<ge> 0. \<not> host_blocked (lim_hosts (rd_limiter (sy_rdap s))) (host_of X base) t))"

text \<open>What the registry says with a reply.\<close>

definition registry_says :: "externals \<Rightarrow> name \<Rightarrow> string \<Rightarrow> http_reply \<Rightarrow> (registration_status \<times> status) option" where
  "registry_says X n endpoint reply =
     (case reply of
        HttpReply code retry body \<Rightarrow>
          if code = 404 then Some (RegistrationNotRegistered, StatusAvailable)
          else if code = 200
          then (case body of
                  None \<Rightarrow> None
                | Some data \<Rightarrow>
                    (case parse_response X (take max_body_bytes data) n endpoint of
                       Inl e \<Rightarrow> None | Inr r \<Rightarrow> Some (pr_registration r, pr_status r)))
          else None
      | _ \<Rightarrow> None)"

lemma rdap_do_says:
  assumes "fst (e_http_get E endpoint w) = reply" and "registry_says X n endpoint reply = Some (st, d)"
  shows "\<exists>r w1. rdap_do E X endpoint host n w = (Inr r, 0, w1) \<and> pr_registration r = st \<and> pr_status r = d"
  using assms
  by (cases "e_http_get E endpoint w")
     (auto simp: rdap_do_def registry_says_def split: http_reply.splits option.splits sum.splits if_splits)

lemma registry_says_conclusive:
  "registry_says X n endpoint reply = Some (st, d) \<Longrightarrow> st = RegistrationNotRegistered \<or> st = RegistrationRegistered"
  using parse_response_registered
  by (fastforce simp: registry_says_def split: http_reply.splits option.splits sum.splits if_splits)

lemma wait_closed:
  assumes "\<forall>w. fst (e_rate_wait E h w) = Granted" and "\<not> host_blocked (lim_hosts l) h (e_now E w)"
  shows "\<exists>l1 w1. limiter_wait E h l w = (None, l1, w1)"
  using assms limiter_wait_as_open [of E h l w] prod.collapse [of "e_rate_wait E h w"]
  by (auto simp: limiter_wait_def host_entry_def host_blocked_def fresh_host_def Let_def split: option.splits prod.splits rate_outcome.splits)

lemma base_urls_known: "knows E X n b base endpoint \<Longrightarrow> \<exists>bases. base_urls E X (n_tld n) b w = (base # bases, b, w)"
  by (auto simp: knows_def base_urls_def)

lemma wait_keeps: "limiter_wait E h l w = (e, l1, w1) \<Longrightarrow> host_blocked (lim_hosts l1) k t = host_blocked (lim_hosts l) k t"
  by (auto simp: limiter_wait_def limiter_defs Let_def split: option.splits prod.splits rate_outcome.splits if_splits)

lemma rdap_loop_steady:
  assumes "steady E n endpoint reply ns" and "registry_says X n endpoint reply = Some (st, d)" and "0 \<le> retries"
    and "\<forall>t \<ge> 0. \<not> host_blocked (lim_hosts l) h t"
  shows "\<exists>r l1 w1. rdap_loop E X retries endpoint h n 0 None (l, w) = (Ok r, l1, w1) \<and>
    pr_registration r = st \<and> pr_status r = d \<and> (\<forall>t \<ge> 0. \<not> host_blocked (lim_hosts l1) h t)"
proof -
  have free: "\<not> host_blocked (lim_hosts l) h (e_now E w)" using assms(4) steadyD(1) [OF assms(1)] by blast
  have granted: "\<forall>w. fst (e_rate_wait E h w) = Granted" using steadyD(4) [OF assms(1)] by blast
  obtain l1 w1 where wait: "limiter_wait E h l w = (None, l1, w1)" using wait_closed [OF granted free] by blast
  from rdap_do_says [OF steadyD(2) [OF assms(1)] assms(2)] obtain r w2 where "rdap_do E X endpoint h n w1 = (Inr r, 0, w2)"
    and r: "pr_registration r = st" "pr_status r = d" by blast
  then have "rdap_loop E X retries endpoint h n 0 None (l, w) = (Ok r, report_success h l1, w2)"
    using wait assms(3) by (subst rdap_loop.simps) simp
  with r show ?thesis by (simp add: report_success_def breaker.blocked_good)
qed

lemma rdap_check_steady:
  assumes "steady E n endpoint reply ns" and "registry_says X n endpoint reply = Some (st, d)" and "0 \<le> retries"
    and "knows E X n b base endpoint" and "settled X b base s"
  shows "\<exists>r s1. pv_check (rdap_provider E X retries) n s = (Ok r, s1) \<and>
    pr_registration r = st \<and> pr_status r = d \<and> settled X b base s1"
proof -
  obtain bases where urls: "base_urls E X (n_tld n) b (sy_world s) = (base # bases, b, sy_world s)"
    using base_urls_known [OF assms(4)] by blast
  have b: "rd_bootstrap (sy_rdap s) = b" using assms(5) by (simp add: settled_def)
  obtain r l1 w1 where loop: "rdap_loop E X retries endpoint (host_of X base) n 0 None (rd_limiter (sy_rdap s), sy_world s) = (Ok r, l1, w1)"
    "pr_registration r = st" "pr_status r = d" "\<forall>t \<ge> 0. \<not> host_blocked (lim_hosts l1) (host_of X base) t"
    using rdap_loop_steady [OF assms(1-3)] assms(5) unfolding settled_def by metis
  have "x_join_path X base [''domain'', n_ascii n] = Some endpoint" using assms(4) by (simp add: knows_def)
  with urls b loop show ?thesis
    by (auto simp: rdap_provider_def rdap_check_def rdap_query_def settled_def)
qed

text \<open>The engine's budget does not touch the source's own state.\<close>

lemma settled_world [simp]: "settled X b base (s\<lparr>sy_world := w\<rparr>) = settled X b base s"
  by (simp add: settled_def)

lemma system_budget_settled [simp]:
  "settled X b base (snd (bg_acquire (system_budget E) s)) = settled X b base s"
  "settled X b base (bg_release (system_budget E) s) = settled X b base s"
  "settled X b base (bg_with_timeout (system_budget E) t s) = settled X b base s"
  "settled X b base (bg_cancel (system_budget E) s) = settled X b base s"
  by (simp_all add: system_budget_def split: prod.split)

lemma run_settled:
  assumes "steady E n endpoint reply ns" and "settled X b base s"
    and "\<And>s. settled X b base s \<Longrightarrow> \<exists>r s1. pv_check p n s = (Ok r, s1) \<and> P r \<and> settled X b base s1"
  shows "\<exists>r s1. run (build_engine c E X) p n s = (Ok (if pr_provider r = [] then r\<lparr>pr_provider := pv_name p\<rparr> else r), s1) \<and>
    P r \<and> fst (pv_check p n (bg_with_timeout (system_budget E) (en_timeout (build_engine c E X)) (snd (bg_acquire (system_budget E) s)))) = Ok r \<and>
    settled X b base s1"
proof -
  let ?en = "build_engine c E X"
  let ?s = "bg_with_timeout (system_budget E) (en_timeout ?en) (snd (bg_acquire (system_budget E) s))"
  have "fst (bg_acquire (system_budget E) s)"
    using steadyD(5) [OF assms(1), of "sy_world s"] by (simp add: system_budget_def split_beta Let_def)
  moreover have "settled X b base ?s" using assms(2) by simp
  from assms(3) [OF this] obtain r s1 where "pv_check p n ?s = (Ok r, s1)" "P r" "settled X b base s1" by blast
  moreover have "en_budget ?en = system_budget E" by (simp add: build_engine_def engine_new_def)
  ultimately show ?thesis
    by (simp add: run_def Let_def split: prod.split bool.split) fastforce
qed

section \<open>The configured sources\<close>

definition delegated_by :: "ns_reply \<Rightarrow> bool" where
  "delegated_by ns = (case ns of NsRecords hosts \<Rightarrow> hosts \<noteq> [] | _ \<Rightarrow> False)"

lemma dns_check_steady:
  assumes "steady E n endpoint reply ns" and "settled X b base s"
  shows "\<exists>r s1. pv_check (dns_provider E t) n s = (Ok r, s1) \<and>
    (pr_provider r = dns_name \<and> pr_registration r = (if delegated_by ns then RegistrationRegistered else RegistrationUnknown)) \<and>
    settled X b base s1"
proof -
  obtain w1 where "e_lookup_ns E (n_ascii n) (e_with_timeout E t (sy_world s)) = (ns, w1)"
    using steadyD(3) [OF assms(1)] by (metis prod.collapse)
  with assms(2) show ?thesis
    by (auto simp: dns_provider_def dns_check_def delegated_by_def Let_def split: ns_reply.split list.split)
qed

lemma supports_steady:
  assumes "knows E X n b base endpoint" and "settled X b base s"
  shows "fst (pv_supports (rdap_provider E X k) n s) \<and> settled X b base (snd (pv_supports (rdap_provider E X k) n s))"
    and "fst (pv_supports (dns_provider E t) n s) \<and> settled X b base (snd (pv_supports (dns_provider E t) n s))"
proof -
  obtain bases where "base_urls E X (n_tld n) b (sy_world s) = (base # bases, b, sy_world s)"
    using base_urls_known [OF assms(1)] by blast
  with assms(2) show "fst (pv_supports (rdap_provider E X k) n s) \<and> settled X b base (snd (pv_supports (rdap_provider E X k) n s))"
    by (simp add: rdap_provider_def rdap_supports_def settled_def)
  show "fst (pv_supports (dns_provider E t) n s) \<and> settled X b base (snd (pv_supports (dns_provider E t) n s))"
    using assms(2) by (simp add: dns_provider_def dns_supports_def)
qed

abbreviation rdap_result where
  "rdap_result st d \<equiv> (\<lambda>r. pr_provider r = rdap_name \<and> pr_registration r = st \<and> pr_status r = d)"

abbreviation dns_result where
  "dns_result ns \<equiv> (\<lambda>q :: 'w system provider. \<lambda>r. pr_provider r = dns_name \<and>
     pr_registration r = (if delegated_by ns then RegistrationRegistered else RegistrationUnknown))"

lemma rdap_run_steady:
  assumes "steady E n endpoint reply ns" and "registry_says X n endpoint reply = Some (st, d)" and "0 \<le> retries"
    and "knows E X n b base endpoint" and "settled X b base s"
  shows "\<exists>r s1. run (build_engine c E X) (rdap_provider E X retries) n s = (Ok r, s1) \<and> rdap_result st d r \<and> settled X b base s1"
proof -
  let ?p = "rdap_provider E X retries"
  have "\<exists>r s1. pv_check ?p n s = (Ok r, s1) \<and> (pr_registration r = st \<and> pr_status r = d) \<and> settled X b base s1"
    if "settled X b base s" for s
    using rdap_check_steady [OF assms(1-4) that] by blast
  from run_settled [OF assms(1,5) this, of c] obtain r s1 where r: "pr_registration r = st" "pr_status r = d" "settled X b base s1"
    "run (build_engine c E X) ?p n s = (Ok (if pr_provider r = [] then r\<lparr>pr_provider := pv_name ?p\<rparr> else r), s1)"
    and check: "\<exists>t. fst (pv_check ?p n t) = Ok r"
    by blast
  from check have "coherent rdap_name r" using source_contract.check_coherent [OF rdap_source] by blast
  then have "pr_provider r = rdap_name \<or> pr_provider r = []" by (simp add: coherent_def)
  with r show ?thesis by auto
qed

lemma dns_run_steady:
  assumes "steady E n endpoint reply ns" and "settled X b base s"
  shows "\<exists>r s1. run (build_engine c E X) (dns_provider E t) n s = (Ok r, s1) \<and>
    (pr_provider r = dns_name \<and> pr_registration r = (if delegated_by ns then RegistrationRegistered else RegistrationUnknown)) \<and>
    settled X b base s1"
proof -
  from run_settled [OF assms dns_check_steady [OF assms(1)], of c t] obtain r s1 where
    "run (build_engine c E X) (dns_provider E t) n s =
      (Ok (if pr_provider r = [] then r\<lparr>pr_provider := pv_name (dns_provider E t)\<rparr> else r), s1)"
    "pr_provider r = dns_name" "pr_registration r = (if delegated_by ns then RegistrationRegistered else RegistrationUnknown)"
    "settled X b base s1"
    by blast
  then show ?thesis by (auto simp: dns_name_def)
qed

lemma engine_decisive:
  assumes "steady E n endpoint reply ns" and "registry_says X n endpoint reply = Some (st, d)" and "0 \<le> cfg_rdap_retries c"
    and "knows E X n b base endpoint"
  shows "decisive (build_engine c E X) n (settled X b base) (rdap_result st d) (dns_result ns)"
proof -
  let ?p = "rdap_provider E X (cfg_rdap_retries c)"
  have st: "st \<noteq> RegistrationUnknown" using registry_says_conclusive [OF assms(2)] by auto
  have "fst (pv_supports ?p n s) \<and> settled X b base (snd (pv_supports ?p n s)) \<and>
      (\<exists>r s1. run (build_engine c E X) ?p n s = (Ok r, s1) \<and> rdap_result st d r \<and> pr_registration r \<noteq> RegistrationUnknown \<and>
         settled X b base s1)" if "settled X b base s" for s
    using supports_steady(1) [OF assms(4) that] rdap_run_steady [OF assms that, of c] st by blast
  moreover have "fst (pv_supports q n s) \<and> settled X b base (snd (pv_supports q n s)) \<and>
      (\<exists>r s1. run (build_engine c E X) q n s = (Ok r, s1) \<and> dns_result ns q r \<and> settled X b base s1)"
    if "q \<in> set (corroborating_sources c E)" "settled X b base s" for q s
  proof -
    from that(1) have "q = dns_provider E (cfg_dns_timeout c)" by (simp add: corroborating_sources_def split: if_splits)
    with supports_steady(2) [OF assms(4) that(2)] dns_run_steady [OF assms(1) that(2), of c] show ?thesis by blast
  qed
  ultimately show ?thesis by (simp add: decisive_def primary_sources_def)
qed

section \<open>Properties\<close>

lemma decided_claims:
  assumes "decided (rdap_result st d) (beside (build_engine c E X) (dns_result ns)) results"
    and "\<forall>q \<in> set (corroborating_sources c E). \<exists>r \<in> set results. dns_result ns q r"
  shows "claims rdap_name st2 results \<longleftrightarrow> st2 = st" and "\<not> claims whois_name st2 results"
    and "claims dns_name RegistrationRegistered results \<longleftrightarrow> cfg_dns_enabled c \<and> delegated_by ns"
    and "\<exists>r \<in> set results. rdap_result st d r"
proof -
  from assms(1) obtain r where r: "r \<in> set results" "rdap_result st d r"
    and rest: "\<And>r2. r2 \<in> set results \<Longrightarrow> r2 = r \<or> cfg_dns_enabled c \<and> (\<exists>q. dns_result ns q r2)"
    by (auto simp: decided_def beside_def corroborating_sources_def split: if_splits)
  from r rest show "claims rdap_name st2 results \<longleftrightarrow> st2 = st" by (fastforce simp: claims_def)
  from r rest show "\<not> claims whois_name st2 results" by (fastforce simp: claims_def)
  from r show "\<exists>r \<in> set results. rdap_result st d r" by blast
  have "claims dns_name RegistrationRegistered results" if "cfg_dns_enabled c" "delegated_by ns"
    using assms(2) that by (auto simp: claims_def corroborating_sources_def)
  moreover have "cfg_dns_enabled c \<and> delegated_by ns" if "claims dns_name RegistrationRegistered results"
    using that r(2) rest by (fastforce simp: claims_def split: if_splits)
  ultimately show "claims dns_name RegistrationRegistered results \<longleftrightarrow> cfg_dns_enabled c \<and> delegated_by ns" by blast
qed

text \<open>
  C10: a registry that is known and answers decides, in every interleaving of the goroutines and
  whatever other requests do in between: after a 404 the name is reported as available, with high
  confidence and without a conflict unless DNS still delegates it; after a payload as unavailable, with
  the payload's status and high confidence. WHOIS is not asked.
\<close>

theorem registry_reply_decides:
  assumes "steady E n endpoint reply ns" and "registry_says X n endpoint reply = Some (st, d)" and "0 \<le> cfg_rdap_retries c"
    and "knows E X n b base endpoint" and "settled X b base s"
    and "\<forall>s t. settled X b base s \<and> interfere s t \<longrightarrow> settled X b base t"
    and "check_steps (build_engine c E X) n interfere (check_start (build_engine c E X) s) k" and "check_done k"
  shows "let v = resolve (ck_results k); delegated = cfg_dns_enabled c \<and> delegated_by ns
    in (if st = RegistrationNotRegistered
        then rs_availability v = AvailabilityAvailable \<and> rs_status v = StatusAvailable \<and>
          rs_confidence v = (if delegated then ConfidenceLow else ConfidenceHigh) \<and> rs_conflict v = delegated
        else rs_availability v = AvailabilityUnavailable \<and> rs_status v = d \<and>
          rs_confidence v = ConfidenceHigh \<and> \<not> rs_conflict v) \<and>
       (\<forall>q \<in> set (ck_results k). pr_provider q \<noteq> whois_name)"
proof -
  let ?rs = "ck_results k"
  have fin: "decided (rdap_result st d) (beside (build_engine c E X) (dns_result ns)) ?rs"
    and dns: "\<forall>q \<in> set (corroborating_sources c E). \<exists>r \<in> set ?rs. dns_result ns q r"
    using decisive_results [OF engine_decisive [OF assms(1-4)] assms(6,5,7,8)] by simp_all
  have "check_inv (primary_sources c E X) (corroborating_sources c E) k"
    using wired.check_steps_inv [OF assms(7)] wired.check_inv_start [OF engine_sources] by blast
  then have dist: "distinct (map pr_provider ?rs)" by (simp add: check_inv_def)
  note facts = decided_claims [OF fin dns]
  have st: "st = RegistrationNotRegistered \<or> st = RegistrationRegistered" by (rule registry_says_conclusive [OF assms(2)])
  note table = resolve_table_facts [OF dist HOL.refl, unfolded facts(1-3)]
  obtain r where r: "r \<in> set ?rs" "rdap_result st d r" using facts(4) by blast
  have "pr_provider q \<noteq> whois_name" if "q \<in> set ?rs" for q
    using facts(2) that by (auto simp: claims_def)
  moreover have "st = RegistrationNotRegistered \<Longrightarrow> rs_availability (resolve ?rs) = AvailabilityAvailable" using table by (simp add: facts(2))
  ultimately show ?thesis
    using st table r resolve_available_status [of ?rs] by (auto simp: Let_def facts(2))
qed

text \<open>A small world in which the registry of a TLD answers.\<close>

definition free_env :: "unit env" where
  "free_env =
     \<lparr>e_now = (\<lambda>w. hour), e_ctx_done = (\<lambda>w. False), e_rate_wait = (\<lambda>h w. (Granted, w)),
      e_rand = (\<lambda>n w. (0, w)), e_timer = (\<lambda>d w. (True, w)),
      e_acquire_slot = (\<lambda>w. (True, w)), e_release_slot = id, e_with_timeout = (\<lambda>d w. w), e_cancel = id,
      e_http_get = (\<lambda>u w. (HttpReply 404 [] None, w)), e_whois = (\<lambda>s q w. (WhoisDialFailed, w)),
      e_lookup_ns = (\<lambda>n w. (NsNotFound, w))\<rparr>"

definition com_registry :: bootstrap where
  "com_registry = \<lparr>bs_ttl = 24 * hour, bs_services = [''com'' \<mapsto> [''https://r'']], bs_publication = 0,
     bs_fetched_at = hour, bs_refreshing = False\<rparr>"

definition com_system :: "unit system" where
  "com_system = (build_system sample_config plain_externals [] ())
     \<lparr>sy_rdap := \<lparr>rd_bootstrap = com_registry, rd_limiter = new_host_limiter sample_limits\<rparr>\<rparr>"

lemma com_facts:
  "steady free_env shop ''https://r/domain/shop.example.com'' (HttpReply 404 [] None) NsNotFound"
  "knows free_env plain_externals shop com_registry ''https://r'' ''https://r/domain/shop.example.com''"
  "settled plain_externals com_registry ''https://r'' com_system"
  by (simp_all add: steady_def free_env_def knows_def com_registry_def stale_def time_sub_def hour_def shop_def
      plain_externals_def settled_def com_system_def build_system_def new_host_limiter_def host_blocked_def Let_def)

theorem registry_reply_decides_witness:
  "rs_confidence (resolve (ck_results (check_results (build_engine sample_config free_env plain_externals) shop [1]
     (check_start (build_engine sample_config free_env plain_externals) com_system)))) = ConfidenceHigh"
proof -
  let ?en = "build_engine sample_config free_env plain_externals"
  let ?k = "check_results ?en shop [1] (check_start ?en com_system)"
  have says: "registry_says plain_externals shop ''https://r/domain/shop.example.com'' (HttpReply 404 [] None) =
      Some (RegistrationNotRegistered, StatusAvailable)" and tries: "0 \<le> cfg_rdap_retries sample_config"
    by (simp_all add: registry_says_def sample_config_def)
  have quiet: "\<forall>s t :: unit system. settled plain_externals com_registry ''https://r'' s \<and> (\<lambda>_ _. False) s t \<longrightarrow>
      settled plain_externals com_registry ''https://r'' t" by simp
  note run = check_results_steps [of ?en shop "\<lambda>_ _. False" "check_start ?en com_system" "[1]"]
  have "\<not> ck_panic ?k"
    using on_track_steps [OF engine_decisive [OF com_facts(1) says tries com_facts(2)] quiet com_facts(3) run]
    by (simp add: on_track_def)
  note registry_reply_decides [OF com_facts(1) says tries com_facts(2,3) quiet run check_results_done [OF this]]
  then show ?thesis by (simp add: Let_def delegated_by_def)
qed

end
