(* ===== verification/Callers.thy ===== *)
theory Callers
  imports Concurrent Decisive
begin

text \<open>
  Calls with contexts of their own, as those of different clients: a context ends when its client goes
  away. \<open>with_callers\<close> gives an environment the contexts of any number of callers; what blocks then ends
  with an error as soon as the context of the caller at work is done, which is what the documentation of
  \<^theory_text>\<open>context\<close>, \<^theory_text>\<open>net/http\<close> and \<^theory_text>\<open>net\<close> says of these calls. \<open>turn\<close> hands the state to a caller; it is the
  \<open>focus\<close> of \<open>Flights\<close>.
\<close>

section \<open>Contexts\<close>

record 'w clients =
  cl_caller :: nat
  cl_gone :: "nat \<Rightarrow> bool"
  cl_world :: 'w

definition caller_gone :: "'w clients \<Rightarrow> bool" where
  "caller_gone w = cl_gone w (cl_caller w)"

definition on_world :: "('w \<Rightarrow> 'r \<times> 'w) \<Rightarrow> 'w clients \<Rightarrow> 'r \<times> 'w clients" where
  "on_world f w = (let (r, v) = f (cl_world w) in (r, w\<lparr>cl_world := v\<rparr>))"

definition unless_gone :: "'r \<Rightarrow> ('w \<Rightarrow> 'r \<times> 'w) \<Rightarrow> 'w clients \<Rightarrow> 'r \<times> 'w clients" where
  "unless_gone r f w = (if caller_gone w then (r, w) else on_world f w)"

definition with_callers :: "'w env \<Rightarrow> 'w clients env" where
  "with_callers E =
     \<lparr>e_now = (\<lambda>w. e_now E (cl_world w)), e_ctx_done = (\<lambda>w. caller_gone w \<or> e_ctx_done E (cl_world w)),
      e_rate_wait = (\<lambda>h. unless_gone RateCancelled (e_rate_wait E h)),
      e_rand = (\<lambda>n. on_world (e_rand E n)), e_timer = (\<lambda>d. unless_gone False (e_timer E d)),
      e_acquire_slot = unless_gone False (e_acquire_slot E),
      e_release_slot = (\<lambda>w. w\<lparr>cl_world := e_release_slot E (cl_world w)\<rparr>),
      e_with_timeout = (\<lambda>d w. w\<lparr>cl_world := e_with_timeout E d (cl_world w)\<rparr>),
      e_cancel = (\<lambda>w. w\<lparr>cl_world := e_cancel E (cl_world w)\<rparr>),
      e_http_get = (\<lambda>u. unless_gone HttpFailed (e_http_get E u)),
      e_whois = (\<lambda>s q. unless_gone WhoisDialFailed (e_whois E s q)),
      e_lookup_ns = (\<lambda>n. unless_gone NsFailed (e_lookup_ns E n))\<rparr>"

definition turn :: "nat \<Rightarrow> 'w clients system \<Rightarrow> 'w clients system" where
  "turn i s = s\<lparr>sy_world := (sy_world s)\<lparr>cl_caller := i\<rparr>\<rparr>"

text \<open>The caller \<open>i\<close> is at work, and gone.\<close>

definition gone :: "nat \<Rightarrow> 'w clients \<Rightarrow> bool" where
  "gone i w = (cl_caller w = i \<and> cl_gone w i)"

lemma gone_unless [simp]: "gone i w \<Longrightarrow> unless_gone r f w = (r, w)"
  by (simp add: unless_gone_def caller_gone_def gone_def)

lemma gone_world [simp]: "gone i (w\<lparr>cl_world := v\<rparr>) = gone i w"
  by (simp add: gone_def)

lemma gone_turn [simp]: "gone i (sy_world s) \<Longrightarrow> turn i s = s"
  by (simp add: gone_def turn_def)

lemma with_callers_gone [simp]:
  "gone i w \<Longrightarrow> e_acquire_slot (with_callers E) w = (False, w)"
  "gone i w \<Longrightarrow> e_http_get (with_callers E) u w = (HttpFailed, w)"
  "gone i w \<Longrightarrow> e_whois (with_callers E) sv q w = (WhoisDialFailed, w)"
  "gone i (e_with_timeout (with_callers E) d w) = gone i w" "gone i (e_cancel (with_callers E) w) = gone i w"
  by (simp_all add: with_callers_def)

section \<open>A check for a client that is gone\<close>

lemma gone_base_urls:
  assumes "gone i w" and "base_urls (with_callers E) X tld b w = (urls, b1, w1)"
  shows "gone i w1"
proof -
  have "gone i (snd (fetch (with_callers E) X w))" using assms(1) by (simp add: fetch_def)
  with assms show ?thesis
    by (auto simp: base_urls_def try_refresh_def split: prod.splits sum.splits if_splits)
qed

lemma gone_supports:
  assumes "gone i (sy_world s)"
    and "p \<in> set (primary_sources c (with_callers E) X @ corroborating_sources c (with_callers E))"
  shows "gone i (sy_world (snd (pv_supports p n s)))"
proof -
  have "gone i (sy_world (snd (pv_supports (rdap_provider (with_callers E) X k) n s)))" for k
    using gone_base_urls [OF assms(1)] by (auto simp: rdap_provider_def rdap_supports_def split: prod.splits)
  moreover have "gone i (sy_world (snd (pv_supports (whois_provider (with_callers E) X) n s)))"
    using assms(1) by (auto simp: whois_provider_def whois_supports_def registry_server_def whois_query_def split: option.split prod.split)
  moreover have "gone i (sy_world (snd (pv_supports (dns_provider (with_callers E) t) n s)))" for t
    using assms(1) by (simp add: dns_provider_def dns_supports_def)
  ultimately show ?thesis using assms(2) by (auto simp: primary_sources_def corroborating_sources_def split: if_splits)
qed

lemma gone_run: "gone i (sy_world s) \<Longrightarrow> run (build_engine c (with_callers E) X) p n s = (Err ContextErr, s)"
  by (simp add: run_def build_engine_def engine_new_def system_budget_def)

text \<open>What the goroutines of such a check leave: nothing but failures.\<close>

definition only_failures :: "nat \<Rightarrow> 'w clients system provider list \<Rightarrow> 'w clients system check_state \<Rightarrow> bool" where
  "only_failures i sources c =
     (gone i (sy_world (ck_shared c)) \<and> \<not> ck_panic c \<and> set (ck_pending c) \<union> set (ck_chain c) \<subseteq> set sources \<and>
      (\<forall>r \<in> set (ck_results c). pr_registration r = RegistrationUnknown \<and> pr_status r = StatusUnknown \<and> pr_error r = Some ContextErr))"

lemma only_failures_step:
  assumes "only_failures i sources k" and "check_step (build_engine c (with_callers E) X) n (\<lambda>_ _. False) k d"
    and "\<And>p s. p \<in> set sources \<Longrightarrow> gone i (sy_world s) \<Longrightarrow> gone i (sy_world (snd (pv_supports p n s)))"
  shows "only_failures i sources d"
  using assms(2)
proof cases
  case (corroborating before p after)
  obtain ok s1 where s1: "pv_supports p n (ck_shared k) = (ok, s1)" by fastforce
  with assms(1,3) corroborating have "gone i (sy_world s1)" by (fastforce simp: only_failures_def)
  with assms(1) corroborating s1 show ?thesis by (auto simp: only_failures_def corroborate_def gone_run)
next
  case (primary p ps)
  obtain ok s1 where s1: "pv_supports p n (ck_shared k) = (ok, s1)" by fastforce
  with assms(1,3) primary have "gone i (sy_world s1)" by (fastforce simp: only_failures_def)
  with assms(1) primary s1 show ?thesis
    by (auto simp: only_failures_def advance_def gone_run query_failed_def zero_result_def)
qed simp

lemma failures_unknown:
  assumes "\<forall>r \<in> set results. pr_registration r = RegistrationUnknown \<and> pr_status r = StatusUnknown"
  shows "rs_availability (resolve results) = AvailabilityUnknown"
proof -
  have "pr_registration r = RegistrationUnknown" if "last_of p results = Some r" for p r
    using that assms last_of_Some by blast
  then show ?thesis
    by (cases "last_of rdap_name results"; cases "last_of whois_name results"; cases "last_of dns_name results")
       (auto simp: resolve_def scan_nothing decide_def Let_def)
qed

text \<open>The execution as steps of the call that leads it.\<close>

lemma gone_execution:
  assumes "call_is b i (Leading n (Running (check_start (build_engine c (with_callers E) X) (fl_shared b))))"
    and "gone i (sy_world (fl_shared b))"
  shows "\<exists>k d. calls c (with_callers E) X turn reqs b k (set_call i (Leading n (Running d)) (b\<lparr>fl_shared := ck_shared d\<rparr>)) \<and>
    check_done d \<and> rs_availability (resolve (ck_results d)) = AvailabilityUnknown \<and>
    (\<forall>q \<in> set (ck_results d). pr_error q = Some ContextErr)"
proof -
  let ?en = "build_engine c (with_callers E) X"
  let ?sources = "primary_sources c (with_callers E) X @ corroborating_sources c (with_callers E)"
  let ?c = "check_start ?en (fl_shared b)"
  let ?d = "check_results ?en n [] ?c"
  have start: "only_failures i ?sources ?c" using assms(2) by (auto simp: only_failures_def check_start_def)
  have next_step: "only_failures i ?sources d"
    if "only_failures i ?sources k" "check_step ?en n (\<lambda>_ _. False) k d" for k d
    using only_failures_step [OF that] gone_supports by blast
  have keep: "turn i (ck_shared k) = ck_shared k" if "only_failures i ?sources k" for k
    using that by (simp add: only_failures_def)
  have shared: "fl_shared b = ck_shared ?c" by (simp add: check_start_def)
  have run: "only_failures i ?sources ?d \<and>
      (\<exists>k. calls c (with_callers E) X turn reqs b k (set_call i (Leading n (Running ?d)) (b\<lparr>fl_shared := ck_shared ?d\<rparr>)))"
    using check_steps_run_in [where P = "only_failures i ?sources" and focus = turn, OF check_results_steps assms(1) shared start next_step keep] .
  then have "check_done ?d" by (intro check_results_done) (simp add: only_failures_def)
  moreover have "rs_availability (resolve (ck_results ?d)) = AvailabilityUnknown"
    using run by (intro failures_unknown) (simp add: only_failures_def)
  moreover have "\<forall>q \<in> set (ck_results ?d). pr_error q = Some ContextErr" using run by (simp add: only_failures_def)
  moreover obtain k where "calls c (with_callers E) X turn reqs b k (set_call i (Leading n (Running ?d)) (b\<lparr>fl_shared := ck_shared ?d\<rparr>))"
    using run by blast
  ultimately show ?thesis by blast
qed

section \<open>Two calls about one name\<close>

abbreviation two_calls :: "'s phase \<Rightarrow> 's phase \<Rightarrow> entries \<Rightarrow> 's \<Rightarrow> 's flights" where
  "two_calls p0 p1 m s \<equiv> \<lparr>fl_cache = m, fl_calls = [p0, p1], fl_shared = s\<rparr>"

text \<open>The second call misses the cache too and joins the execution that the first has started.\<close>

lemma two_calls_meet:
  assumes "parse X (rq_input q0) = Inr n" and "parse X (rq_input q1) = Inr n1" and "n_ascii n1 = n_ascii n" and "m (n_ascii n) = None"
  shows "\<exists>k. calls_run X now en focus [q0, q1] (flights_start [q0, q1] m s) k
    (two_calls (Leading n (Running (check_start en s))) (Joined n1) m s)"
proof -
  let ?step = "call_step X now en focus [q0, q1]" and ?lead = "Leading n (Running (check_start en s))"
  have none: "cache_get t (n_ascii n) m = (None, m)" for t using assms(4) by (simp add: cache_get_def)
  note go = calls_run.own [where focus = focus]
  have miss0: "?step (two_calls Arrived Arrived m s) (two_calls (Missed n) Arrived m s)"
    using call_step.miss [where i = 0 and b = "two_calls Arrived Arrived m s" and now = now and reqs = "[q0, q1]" and n = n and m = m and X = X] assms(1) none
    by (simp add: call_is_def set_call_def)
  have lead: "?step (two_calls (Missed n) Arrived m s) (two_calls ?lead Arrived m s)"
    using call_step.lead [where i = 0 and b = "two_calls (Missed n) Arrived m s" and n = n] by (simp add: call_is_def set_call_def)
  have miss1: "?step (two_calls ?lead Arrived m s) (two_calls ?lead (Missed n1) m s)"
    using call_step.miss [where i = 1 and b = "two_calls ?lead Arrived m s" and now = now and reqs = "[q0, q1]" and n = n1 and m = m and X = X] assms(2,3) none
    by (simp add: call_is_def set_call_def)
  have join: "?step (two_calls ?lead (Missed n1) m s) (two_calls ?lead (Joined n1) m s)"
    using call_step.join [where i = 1 and b = "two_calls ?lead (Missed n1) m s" and n = n1] assms(3) by (simp add: call_is_def set_call_def)
  show ?thesis
    unfolding flights_start_def using go [OF go [OF go [OF go [OF calls_run.refl miss0] lead] miss1] join] by (auto simp: comp_def)
qed

text \<open>When the execution has ended, its value is stored and both calls return with it.\<close>

lemma two_calls_land:
  fixes now :: "'s \<Rightarrow> time"
  assumes "check_done d" and "n_ascii n1 = n_ascii n"
  defines "v \<equiv> assemble n (ck_results d) (now (ck_shared d))"
  shows "\<exists>k. calls_run X now en focus [q0, q1] (two_calls (Leading n (Running d)) (Joined n1) m (ck_shared d)) k
    (two_calls (Answered (answer_request q0 v)) (Answered (answer_request q1 v))
       (cache_put (en_ttl en) (now (ck_shared d)) (n_ascii n) v m) (ck_shared d))"
proof -
  let ?step = "call_step X now en focus [q0, q1]" and ?s = "ck_shared d"
  let ?m = "cache_put (en_ttl en) (now ?s) (n_ascii n) v m"
  note go = calls_run.own [where focus = focus]
  have compute: "?step (two_calls (Leading n (Running d)) (Joined n1) m ?s) (two_calls (Leading n (Computed v)) (Joined n1) m ?s)"
    using call_step.compute [where i = 0 and b = "two_calls (Leading n (Running d)) (Joined n1) m ?s" and n = n and c = d and now = now] assms(1)
    by (simp add: call_is_def set_call_def v_def)
  have store: "?step (two_calls (Leading n (Computed v)) (Joined n1) m ?s) (two_calls (Leading n (Stored v)) (Joined n1) ?m ?s)"
    using call_step.store [where i = 0 and b = "two_calls (Leading n (Computed v)) (Joined n1) m ?s" and n = n and r = v and now = now and en = en]
    by (simp add: call_is_def set_call_def)
  have return: "?step (two_calls (Leading n (Stored v)) (Joined n1) ?m ?s)
      (two_calls (Answered (answer_request q0 v)) (Answered (answer_request q1 v)) ?m ?s)"
    using call_step.return [where i = 0 and b = "two_calls (Leading n (Stored v)) (Joined n1) ?m ?s" and n = n and r = v and reqs = "[q0, q1]"] assms(2)
    by (simp add: call_is_def land_def)
  show ?thesis using go [OF go [OF go [OF calls_run.refl compute] store] return] by blast
qed

section \<open>Properties\<close>


text \<open>
  Two clients of a server with RDAP only, whose registry knows the TLD; the first client is gone. The
  second alone is told that the name is free.
\<close>

definition rdap_only :: config where
  "rdap_only = sample_config\<lparr>cfg_whois_enabled := False, cfg_dns_enabled := False\<rparr>"

definition two_clients :: "nat \<Rightarrow> unit clients system" where
  "two_clients i =
     \<lparr>sy_rdap = \<lparr>rd_bootstrap = com_registry, rd_limiter = new_host_limiter sample_limits\<rparr>,
      sy_whois = \<lparr>ws_registry = Map.empty, ws_limiter = new_host_limiter sample_limits\<rparr>,
      sy_world = \<lparr>cl_caller = i, cl_gone = (\<lambda>j. j = 0), cl_world = ()\<rparr>\<rparr>"

lemma two_clients_facts:
  "gone 0 (sy_world (two_clients 0))" "turn 1 (two_clients 0) = two_clients 1"
  by (simp_all add: gone_def two_clients_def turn_def)

lemma second_alone_rdap:
  "\<exists>r s1. rdap_check (with_callers free_env) plain_externals 2 shop (sy_rdap (two_clients 1), sy_world (two_clients 1)) = (Ok r, s1) \<and>
     pr_registration r = RegistrationNotRegistered \<and> pr_provider r = rdap_name"
  by (simp add: rdap_check_def base_urls_def two_clients_def com_registry_def stale_def time_sub_def hour_def shop_def
      with_callers_def free_env_def rdap_query_def plain_externals_def rdap_loop.simps limiter_wait_def host_entry_def
      new_host_limiter_def sample_limits_def fresh_host_def unless_gone_def on_world_def caller_gone_def rdap_do_def Let_def)

lemma two_clients_budget:
  "bg_acquire (system_budget (with_callers free_env)) (two_clients 1) = (True, two_clients 1)"
  "bg_with_timeout (system_budget (with_callers free_env)) d s = s" "bg_cancel (system_budget (with_callers free_env)) s = s"
  "bg_release (system_budget (with_callers free_env)) s = s"
  by (simp_all add: system_budget_def with_callers_def free_env_def unless_gone_def on_world_def caller_gone_def two_clients_def)

lemma second_alone_supports:
  "pv_supports (rdap_provider (with_callers free_env) plain_externals k) shop (two_clients 1) = (True, two_clients 1)"
  by (simp add: rdap_provider_def rdap_supports_def base_urls_def two_clients_def com_registry_def stale_def time_sub_def hour_def shop_def
      with_callers_def free_env_def)

lemma second_alone:
  "\<exists>r s1. check_name (system_now (with_callers free_env)) [] (build_engine rdap_only (with_callers free_env) plain_externals)
     shop (two_clients 1) = (Ok r, s1) \<and> cr_availability r = AvailabilityAvailable"
proof -
  let ?E = "with_callers free_env"
  let ?p = "rdap_provider ?E plain_externals 2" and ?en = "build_engine rdap_only ?E plain_externals"
  obtain q t w where "rdap_check ?E plain_externals 2 shop (sy_rdap (two_clients 1), sy_world (two_clients 1)) = (Ok q, t, w)"
    and q: "pr_registration q = RegistrationNotRegistered" "pr_provider q = rdap_name"
    using second_alone_rdap by (metis prod.collapse)
  then obtain s1 where check: "pv_check ?p shop (two_clients 1) = (Ok q, s1)" by (simp add: rdap_provider_def)
  have en: "primary_sources rdap_only ?E plain_externals = [?p]" "corroborating_sources rdap_only ?E = []" "en_budget ?en = system_budget ?E"
    by (simp_all add: build_engine_def engine_new_def primary_sources_def corroborating_sources_def rdap_only_def sample_config_def)
  have run: "run ?en ?p shop (two_clients 1) = (Ok q, s1)"
    by (simp only: run_def en(3) two_clients_budget check Let_def prod.case bool.case res.case) (simp add: q rdap_name_def)
  have "check_results ?en shop [] (check_start ?en (two_clients 1)) =
      \<lparr>ck_results = [q], ck_pending = [], ck_chain = [], ck_panic = False, ck_shared = s1\<rparr>"
    by (simp add: check_results_def check_start_def en Let_def sched_step_def advance_def second_alone_supports run q
        del: One_nat_def)
  then show ?thesis
    by (simp add: check_name_def assemble_def resolve_def scan_step_def nothing_found_def decide_def Let_def q
        del: One_nat_def)
qed


end
