(* ===== verification/Cancelled.thy ===== *)
theory Cancelled
  imports RdapClient
begin

text \<open>
  What queries count against a host whose clients go away while they wait: the retry loop of
  \<^theory_text>\<open>internal/provider/rdap/rdap.go\<close> reports a failure of the host when the context has ended, and the
  breaker of \<^theory_text>\<open>internal/ratelimit\<close> is shared by all clients.
\<close>

text \<open>The client leaves while its request is under way: the request fails and the context is done.\<close>

definition leaving :: "'w env \<Rightarrow> bool" where
  "leaving E =
     (\<forall>w. 0 \<le> e_now E w \<and> (\<forall>h. fst (e_rate_wait E h w) = Granted) \<and>
        (\<forall>u. fst (e_http_get E u w) = HttpFailed \<and> e_ctx_done E (snd (e_http_get E u w))))"

lemma leavingD:
  assumes "leaving E"
  shows "0 \<le> e_now E w" and "fst (e_rate_wait E h w) = Granted" and "fst (e_http_get E u w) = HttpFailed"
    and "e_ctx_done E (snd (e_http_get E u w))"
  using assms unfolding leaving_def by blast+

lemma cancelled_query:
  assumes "leaving E" and "0 \<le> retries" and "x_join_path X base [''domain'', n_ascii n] = Some endpoint"
    and "\<not> host_blocked (lim_hosts l) (host_of X base) (e_now E w)"
  shows "\<exists>e l1 w1. rdap_query E X retries base n (l, w) = (Err e, report_failure E (host_of X base) l1 w1, w1) \<and> same_hosts l l1"
proof -
  let ?h = "host_of X base"
  obtain w1 where "e_rate_wait E ?h w = (Granted, w1)" using leavingD(2) [OF assms(1)] by (metis prod.collapse)
  then obtain l1 where wait: "limiter_wait E ?h l w = (None, l1, w1)" "same_hosts l l1"
    using limiter_wait_granted [OF assms(4)] by blast
  obtain w2 where get: "e_http_get E endpoint w1 = (HttpFailed, w2)" "e_ctx_done E w2"
    using leavingD(3,4) [OF assms(1), of endpoint w1] by (cases "e_http_get E endpoint w1") auto
  then have "rdap_do E X endpoint ?h n w1 = (Inl (RetryableError (Failure ''http'')), 0, w2)"
    by (simp add: rdap_do_def)
  with wait(1) get(2) assms(2,3) have "rdap_query E X retries base n (l, w) =
      (Err (RetryableError (Failure ''http'')), report_failure E ?h l1 w2, w2)"
    by (simp add: rdap_query_def, subst rdap_loop.simps) simp
  with wait(2) show ?thesis by blast
qed

text \<open>The queries of clients that leave, one after the other.\<close>

definition queries :: "'w env \<Rightarrow> externals \<Rightarrow> int \<Rightarrow> string \<Rightarrow> name list \<Rightarrow> limiter \<times> 'w \<Rightarrow> limiter \<times> 'w" where
  "queries E X retries base ns s = fold (\<lambda>n s. snd (rdap_query E X retries base n s)) ns s"

lemma cancelled_queries:
  assumes "leaving E" and "0 \<le> retries" and "\<forall>n \<in> set ns. x_join_path X base [''domain'', n_ascii n] \<noteq> None"
    and "\<forall>t \<ge> 0. \<not> host_blocked (lim_hosts l) (host_of X base) t"
    and "host_failures (lim_hosts l) (host_of X base) + int (length ns) = lc_failure_threshold (lim_cfg l)" and "ns \<noteq> []"
    and "queries E X retries base ns (l, w) = (l1, w1)"
  shows "\<forall>t \<ge> 0. host_blocked (lim_hosts l1) (host_of X base) t = (t < e_now E w1 + lc_open_duration (lim_cfg l))"
  using assms(3-7)
proof (induction ns arbitrary: l w)
  case (Cons n ns)
  let ?h = "host_of X base"
  obtain endpoint where join: "x_join_path X base [''domain'', n_ascii n] = Some endpoint" using Cons.prems(1) by auto
  have free: "\<not> host_blocked (lim_hosts l) ?h (e_now E w)" using Cons.prems(2) leavingD(1) [OF assms(1)] by blast
  obtain e l2 w2 where run: "rdap_query E X retries base n (l, w) = (Err e, report_failure E ?h l2 w2, w2)" and same: "same_hosts l l2"
    using cancelled_query [OF assms(1,2) join free] by (elim exE conjE)
  let ?l = "report_failure E ?h l2 w2"
  have cfg: "lim_cfg ?l = lim_cfg l" using same by (simp add: report_failure_def same_hosts_def)
  have count: "host_failures (lim_hosts ?l) ?h = host_failures (lim_hosts l) ?h + 1"
    using same by (simp add: report_failure_def breaker.failures_bad same_hosts_def)
  have block: "host_blocked (lim_hosts ?l) ?h t =
      (if lc_failure_threshold (lim_cfg l) \<le> host_failures (lim_hosts l) ?h + 1 then t < e_now E w2 + lc_open_duration (lim_cfg l)
       else host_blocked (lim_hosts l2) ?h t)" for t
    using same by (simp add: report_failure_def breaker.blocked_bad same_hosts_def)
  show ?case
  proof (cases ns)
    case Nil
    with Cons.prems(3,5) run block show ?thesis by (auto simp: queries_def)
  next
    case (Cons m ms)
    then have "host_failures (lim_hosts l) ?h + 1 < lc_failure_threshold (lim_cfg l)" using Cons.prems(3) by simp
    moreover have "host_blocked (lim_hosts l2) ?h t = host_blocked (lim_hosts l) ?h t" if "0 \<le> t" for t
      using same that unfolding same_hosts_def by (meson not_less)
    ultimately have "\<forall>t \<ge> 0. \<not> host_blocked (lim_hosts ?l) ?h t" using block Cons.prems(2) by simp
    moreover have "queries E X retries base ns (?l, w2) = (l1, w1)" using Cons.prems(5) run by (simp add: queries_def)
    ultimately show ?thesis using Cons.IH [of ?l w2] Cons.prems(1,3) Cons count cfg by simp
  qed
qed simp

section \<open>Properties\<close>

text \<open>
  C40: clients that leave while they wait for a reply count as failures of the host: as many of them in
  a row as the threshold says open the circuit, and then every client is refused, also one that stays,
  until the hold time has passed.
\<close>

theorem cancelled_queries_open_circuit:
  assumes "leaving E" and "0 \<le> retries" and "\<forall>n \<in> set ns. x_join_path X base [''domain'', n_ascii n] \<noteq> None"
    and "int (length ns) = lc_failure_threshold (lim_cfg (new_host_limiter cfg))"
    and "queries E X retries base ns (new_host_limiter cfg, w) = (l, w1)" and "0 \<le> e_now F w2"
  shows "(\<exists>u. fst (limiter_wait F (host_of X base) l w2) = Some (ErrCircuitOpen (host_of X base) u)) \<longleftrightarrow>
    e_now F w2 < e_now E w1 + lc_open_duration (lim_cfg (new_host_limiter cfg))"
proof -
  have "ns \<noteq> []" using assms(4) new_host_limiter_config [of cfg] by auto
  moreover have "\<forall>t \<ge> 0. \<not> host_blocked (lim_hosts (new_host_limiter cfg)) (host_of X base) t"
    by (simp add: new_host_limiter_def Let_def host_blocked_def)
  moreover have "host_failures (lim_hosts (new_host_limiter cfg)) (host_of X base) = 0" using new_host_limiter_config by blast
  ultimately have "\<forall>t \<ge> 0. host_blocked (lim_hosts l) (host_of X base) t =
      (t < e_now E w1 + lc_open_duration (lim_cfg (new_host_limiter cfg)))"
    using cancelled_queries [OF assms(1-3) _ _ _ assms(5)] assms(4) by simp
  then show ?thesis using assms(6) by (simp add: limiter_wait_open)
qed

definition leaving_env :: "unit env" where
  "leaving_env =
     \<lparr>e_now = (\<lambda>w. 7), e_ctx_done = (\<lambda>w. True), e_rate_wait = (\<lambda>h w. (Granted, w)),
      e_rand = (\<lambda>n w. (0, w)), e_timer = (\<lambda>d w. (False, w)),
      e_acquire_slot = (\<lambda>w. (True, w)), e_release_slot = id, e_with_timeout = (\<lambda>d w. w), e_cancel = id,
      e_http_get = (\<lambda>u w. (HttpFailed, w)), e_whois = (\<lambda>s q w. (WhoisDialFailed, w)),
      e_lookup_ns = (\<lambda>n w. (NsFailed, w))\<rparr>"

theorem cancelled_queries_open_circuit_witness:
  "\<exists>u. fst (limiter_wait script_env ''h'' (fst (queries leaving_env plain_externals 2 ''h'' (replicate 5 sample_name)
      (new_host_limiter sample_limits, ()))) idle_script) = Some (ErrCircuitOpen ''h'' u)"
proof -
  obtain l w1 where run: "queries leaving_env plain_externals 2 ''h'' (replicate 5 sample_name) (new_host_limiter sample_limits, ()) = (l, w1)"
    by (metis surj_pair)
  have host: "host_of plain_externals ''h'' = ''h''" by (simp add: host_of_def plain_externals_def)
  have "(\<exists>u. fst (limiter_wait script_env (host_of plain_externals ''h'') l idle_script) = Some (ErrCircuitOpen (host_of plain_externals ''h'') u)) \<longleftrightarrow>
      e_now script_env idle_script < e_now leaving_env w1 + lc_open_duration (lim_cfg (new_host_limiter sample_limits))"
    by (rule cancelled_queries_open_circuit [OF _ _ _ _ run])
       (simp_all add: leaving_def leaving_env_def plain_externals_def sample_limits_def new_host_limiter_def Let_def idle_script_def)
  with host run show ?thesis
    by (simp add: idle_script_def leaving_env_def sample_limits_def new_host_limiter_def minute_def Let_def)
qed

end
