(* ===== verification/Server.thy ===== *)
theory Server
  imports Serve "HOL-Library.Sublist"
begin

text \<open>
  \<^theory_text>\<open>New\<close> of \<^theory_text>\<open>internal/mcpserver/server.go\<close> and \<^theory_text>\<open>registerTools\<close> of \<^theory_text>\<open>tools.go\<close>: what the server hands to
  the SDK. \<^theory_text>\<open>mcp.NewServer\<close> and \<^theory_text>\<open>mcp.AddTool\<close> are the SDK's; here they are the record of their
  arguments, the tools in the order of their registration.
\<close>

record tool =
  tl_name :: string
  tl_description :: string

record mcp_server =
  ms_name :: string
  ms_title :: string
  ms_version :: string
  ms_instructions :: string
  ms_tools :: "tool list"

definition availability_note :: string where
  "availability_note =
     ''availability is one of: available (no registration found), '' @
     ''unavailable (cannot be registered as-is right now), unknown (no source gave a trustworthy answer '' @
     [CHR 0xE2, CHR 0x80, CHR 0x94] @ '' never treat this as available). status adds detail '' @
     ''(registered, reserved, pending_delete, redemption, '' @
     ''rate_limited, ...), confidence is high/medium/low, and evidence lists the per-source findings.''"

definition registered_tools :: "tool list" where
  "registered_tools =
     [\<lparr>tl_name = ''check_domain'',
       tl_description =
         ''Check whether a single domain can be registered right now. '' @
         ''Uses registry RDAP as the authoritative source, WHOIS where RDAP is absent, and DNS as corroboration. '' @
         availability_note\<rparr>,
      \<lparr>tl_name = ''check_domains'',
       tl_description =
         ''Check up to 100 domains in one call. Prefer this over repeated check_domain calls: '' @
         ''it shares the cache, deduplicates and rate-limits upstream registries. '' @
         availability_note\<rparr>,
      \<lparr>tl_name = ''get_domain_info'',
       tl_description =
         ''Get registration details for a domain: registrar, registration and expiration dates, '' @
         ''EPP statuses and nameservers. Use check_domain instead when you only need availability.''\<rparr>,
      \<lparr>tl_name = ''suggest_domains'',
       tl_description =
         ''Expand your own base name ideas into domain candidates (TLD matrix, prefixes, suffixes, '' @
         ''hyphens, TLD hacks), check them all and return the available ones, ranked. '' @
         ''This tool does not invent names: pass the creative candidates in names.''\<rparr>]"

definition new_server :: "string \<Rightarrow> mcp_server" where
  "new_server version =
     \<lparr>ms_name = ''domain-lens-mcp'', ms_title = ''Domain Lens'', ms_version = version,
      ms_instructions =
        ''Domain availability intelligence. Check whether domains can be registered, '' @
        ''inspect registration details, and expand your own name ideas into verified candidates. '' @
        ''Results distinguish available, unavailable and unknown: unknown means no source could answer, '' @
        ''so never present it to the user as a free domain.'',
      ms_tools = registered_tools\<rparr>"

section \<open>Lemmas\<close>

text \<open>Every tool of the server is handled, every handled call has its tool, and no name is taken twice.\<close>

lemma server_tools:
  "range tool_name = set (map tl_name (ms_tools (new_server version)))"
  "distinct (map tl_name (ms_tools (new_server version)))"
proof -
  have "tl_name t \<in> range tool_name" if "t \<in> set registered_tools" for t
    using that rangeI [of tool_name "CheckDomainInput [] False"] rangeI [of tool_name "CheckDomainsInput [] False False"]
      rangeI [of tool_name "GetDomainInfoInput []"] rangeI [of tool_name "SuggestDomainsInput undefined"]
    unfolding registered_tools_def tool_name.simps by auto
  moreover have "tool_name call \<in> tl_name ` set registered_tools" for call
    by (cases call) (simp_all add: registered_tools_def)
  ultimately show "range tool_name = set (map tl_name (ms_tools (new_server version)))"
    by (auto simp: new_server_def)
  show "distinct (map tl_name (ms_tools (new_server version)))" by (simp add: new_server_def registered_tools_def)
qed

lemma noted_tool:
  assumes "t \<in> set registered_tools"
  shows "sublist availability_note (tl_description t) \<longleftrightarrow> tl_name t \<in> {''check_domain'', ''check_domains''}"
proof -
  have noted: "sublist availability_note xs" if "\<exists>a b. xs = a @ b @ availability_note" for xs
    using that by (metis append_assoc append_Nil2 sublist_appendI)
  have short: "\<not> sublist availability_note xs" if "length xs < length availability_note" for xs
    using that sublist_length_le by fastforce
  have "length registered_tools = 4" by (simp add: registered_tools_def)
  with assms obtain i where "i < 4" "t = registered_tools ! i" by (auto simp: in_set_conv_nth)
  moreover have "i = 0 \<or> i = 1 \<or> i = 2 \<or> i = 3" using calculation by linarith
  ultimately consider "t = registered_tools ! 0" | "t = registered_tools ! 1" | "t = registered_tools ! 2" | "t = registered_tools ! 3"
    by blast
  then show ?thesis
  proof cases
    case 1
    have "\<exists>a b. tl_description t = a @ b @ availability_note"
      unfolding 1 registered_tools_def nth_Cons_0 tool.select_convs by (intro exI, rule HOL.refl)
    moreover have "tl_name t = ''check_domain''" by (simp only: 1 registered_tools_def nth_Cons_0 tool.select_convs)
    ultimately show ?thesis using noted by simp
  next
    case 2
    have "\<exists>a b. tl_description t = a @ b @ availability_note"
      unfolding 2 registered_tools_def nth_Cons_0 nth_Cons_Suc One_nat_def tool.select_convs by (intro exI, rule HOL.refl)
    moreover have "tl_name t = ''check_domains''" by (simp only: 2 registered_tools_def nth_Cons_0 nth_Cons_Suc One_nat_def tool.select_convs)
    ultimately show ?thesis using noted by simp
  next
    case 3
    have "\<not> sublist availability_note (tl_description t)"
      by (rule short) (simp add: 3 registered_tools_def availability_note_def)
    moreover have "tl_name t \<notin> {''check_domain'', ''check_domains''}"
      unfolding 3 registered_tools_def nth_Cons_numeral tool.select_convs by (simp add: registered_tools_def)
    ultimately show ?thesis by simp
  next
    case 4
    have "\<not> sublist availability_note (tl_description t)"
      by (rule short) (simp add: 4 registered_tools_def availability_note_def)
    moreover have "tl_name t \<notin> {''check_domain'', ''check_domains''}"
      unfolding 4 registered_tools_def nth_Cons_numeral tool.select_convs by (simp add: registered_tools_def)
    ultimately show ?thesis by simp
  qed
qed

text \<open>
  The note that \<open>unknown\<close> is not \<open>available\<close> stands in the descriptions of the two tools that report verdicts
  by name only; \<^theory_text>\<open>suggest_domains\<close>, which reports verdicts as well, has it not.
\<close>

lemma availability_note_tools:
  "{t \<in> set (ms_tools (new_server version)). sublist availability_note (tl_description t)} =
   {t \<in> set registered_tools. tl_name t \<in> {''check_domain'', ''check_domains''}}"
  using noted_tool by (auto simp: new_server_def)

end
