(* ===== verification/Session.thy ===== *)
theory Session
  imports Server
begin

text \<open>
  The program over time: tool calls, one after the other, and ticks of the purge loop, from the state
  it starts in. The cache, the limiters, the registries and the network carry over from call to call.
\<close>

datatype session_event =
    ToolCalled "nat list" bool "job list" tool_call
  | Purged

type_synonym tool_reply = "(string \<times> tool_output) res"

fun session ::
  "config \<Rightarrow> 'w env \<Rightarrow> externals \<Rightarrow> (tool_output \<Rightarrow> string option) \<Rightarrow> session_event list \<Rightarrow>
   'w system engine_state \<Rightarrow> (tool_call \<times> tool_reply) list \<times> 'w system engine_state" where
  "session c E X encode [] st = ([], st)"
| "session c E X encode (Purged # events) st = session c E X encode events (purge_cache (system_now E) st)"
| "session c E X encode (ToolCalled schedule join jobs call # events) st =
     (let (r, st1) = handle_tool c E X encode schedule join jobs call st;
          (replies, st2) = session c E X encode events st1
      in ((call, r) # replies, st2))"

text \<open>A batch runs one job per name, in any order.\<close>

fun jobs_match :: "externals \<Rightarrow> session_event \<Rightarrow> bool" where
  "jobs_match X (ToolCalled schedule join jobs call) = (mset (map fst jobs) = mset [0..<length (batch_inputs X call)])"
| "jobs_match X Purged = True"

text \<open>The calls that must be answered: the input is there and within the limits.\<close>

fun acceptable :: "tool_call \<Rightarrow> bool" where
  "acceptable (CheckDomainInput d raw) = (d \<noteq> [])"
| "acceptable (CheckDomainsInput ds only raw) = (ds \<noteq> [] \<and> length ds \<le> 100)"
| "acceptable (GetDomainInfoInput d) = False"
| "acceptable (SuggestDomainsInput i) = (si_names i \<noteq> [] \<and> si_tlds i \<noteq> [])"

text \<open>A reply is sound when all it says is free was found free, and acceptable calls are answered.\<close>

definition sound_reply :: "config \<Rightarrow> 'w env \<Rightarrow> externals \<Rightarrow> tool_call \<Rightarrow> tool_reply \<Rightarrow> bool" where
  "sound_reply c E X call r =
     (r \<noteq> Panic \<and> (acceptable call \<longrightarrow> (\<exists>text out. r = Ok (text, out))) \<and>
      (\<forall>text out. r = Ok (text, out) \<longrightarrow>
         (\<forall>q \<in> set (output_checks out). cr_availability q = AvailabilityAvailable \<longrightarrow> confirmed q) \<and>
         (\<forall>i. out = FoundInfo i \<and> \<not> di_registered i \<longrightarrow> (\<exists>n ks s q s1. parse X (di_domain i) = Inr n \<and>
            check_name (system_now E) ks (build_engine c E X) n s = (Ok q, s1) \<and>
            cr_availability q = AvailabilityAvailable))))"

section \<open>Lemmas\<close>

lemma good_start: "good c E X (start_state c X embedded w)"
  by (simp add: start_state_def good_state_empty)

lemma purge_good: "good c E X st \<Longrightarrow> good c E X (purge_cache now st)"
  by (auto simp: good_state_def purge_cache_def cache_purge_def split: prod.splits option.splits if_splits)

lemma reply_result:
  "reply encode f (r, st) = (q, st1) \<Longrightarrow> r \<noteq> Panic \<Longrightarrow> st1 = st \<and> q \<noteq> Panic \<and> (\<forall>x. r = Ok x \<longrightarrow> (\<exists>text. q = Ok (text, f x)))"
  by (cases r) auto

lemma info_no_panic:
  assumes "cfg_rdap_retries c \<le> 35"
  shows "fst (get_domain_info c E X schedule d s) \<noteq> Panic"
proof -
  have "check_name (system_now E) schedule (build_engine c E X) n s \<noteq> (Panic, s2)" for n s2
    using check_name_returns [OF engine_never_panics [OF assms]] by (metis Pair_inject res.distinct(3))
  then show ?thesis
    by (auto simp: get_domain_info_def engine_info_def split: sum.splits prod.splits res.splits option.splits)
qed

text \<open>What a tool leaves behind, whether it answers or refuses.\<close>

lemma handle_tool_good:
  assumes "good c E X st" and "cfg_rdap_retries c \<le> 35" and "jobs_match X (ToolCalled schedule join jobs call)"
    and "handle_tool c E X encode schedule join jobs call st = (r, st1)"
  shows "good c E X st1 \<and> r \<noteq> Panic \<and> (acceptable call \<longrightarrow> (\<exists>text out. r = Ok (text, out)))"
proof (cases call)
  case (CheckDomainInput d raw)
  show ?thesis
  proof (cases "d = []")
    case False
    obtain q st2 where run: "run_check c E X schedule join d raw st = (Ok q, st2)"
      using engine_check_returns [OF engine_never_panics [OF assms(2)]] by blast
    with check_good [OF assms(1) run] False CheckDomainInput assms(4) show ?thesis
      by (auto simp: handle_tool_def check_domain_def)
  qed (use assms(1,4) CheckDomainInput in \<open>auto simp: handle_tool_def check_domain_def\<close>)
next
  case (CheckDomainsInput ds only raw)
  show ?thesis
  proof (cases "ds = [] \<or> max_batch_size < length ds")
    case False
    obtain rs st2 where run: "check_many X (system_now E) (build_engine c E X) jobs ds raw st = (Ok rs, st2)"
      and "good c E X st2"
      using check_many_answers [OF assms(1,2), of jobs ds raw] assms(3) CheckDomainsInput by (auto simp: batch_inputs_def)
    with False CheckDomainsInput assms(4) show ?thesis by (auto simp: handle_tool_def check_domains_def)
  qed (use assms(1,4) CheckDomainsInput in \<open>auto simp: handle_tool_def check_domains_def max_batch_size_def split: if_splits\<close>)
next
  case (GetDomainInfoInput d)
  obtain m fl s where st: "st = (m, fl, s)" by (metis prod_cases3)
  obtain q s1 where info: "get_domain_info c E X schedule d s = (q, s1)" by (metis surj_pair)
  then have "q \<noteq> Panic" using info_no_panic [OF assms(2), of E X schedule d s] by simp
  with info st GetDomainInfoInput assms(1,4) show ?thesis
    by (cases q) (auto simp: handle_tool_def good_state_def)
next
  case (SuggestDomainsInput i)
  show ?thesis
  proof (cases "si_names i = [] \<or> si_tlds i = []")
    case False
    let ?req = "suggest_request_of i"
    have "mset (map fst jobs) = mset [0..<length (map cd_domain (chosen_candidates ?req (expand X ?req)))]"
      using assms(3) SuggestDomainsInput by (simp add: batch_inputs_def Let_def)
    from check_many_answers [OF assms(1,2) this, of False] obtain rs st2 where run: "check_many X (system_now E) (build_engine c E X) jobs
        (map cd_domain (chosen_candidates ?req (expand X ?req))) False st = (Ok rs, st2)" and "good c E X st2"
      by (elim exE conjE)
    with False SuggestDomainsInput assms(4) show ?thesis
      by (auto simp: handle_tool_def suggest_domains_def suggest_def Let_def)
  qed (use assms(1,4) SuggestDomainsInput in \<open>auto simp: handle_tool_def suggest_domains_def split: if_splits\<close>)
qed

lemma handle_tool_sound:
  assumes "good c E X st" and "cfg_rdap_retries c \<le> 35" and "jobs_match X (ToolCalled schedule join jobs call)"
    and "handle_tool c E X encode schedule join jobs call st = (r, st1)"
  shows "good c E X st1 \<and> sound_reply c E X call r"
proof -
  obtain m fl s where st: "st = (m, fl, s)" by (metis prod_cases3)
  have jobs: "mset (map fst jobs) = mset [0..<length (batch_inputs X call)]" using assms(3) by simp
  note confirmed_tool = tools_available_confirmed [OF assms(1) [unfolded st] _ jobs]
  have "(\<forall>q \<in> set (output_checks out). cr_availability q = AvailabilityAvailable \<longrightarrow> confirmed q) \<and>
      (\<forall>i. out = FoundInfo i \<and> \<not> di_registered i \<longrightarrow> (\<exists>n ks s q s1. parse X (di_domain i) = Inr n \<and>
         check_name (system_now E) ks (build_engine c E X) n s = (Ok q, s1) \<and> cr_availability q = AvailabilityAvailable))"
    if "r = Ok (body, out)" for body out
    using confirmed_tool assms(4) that unfolding st by blast
  then show ?thesis using handle_tool_good [OF assms] unfolding sound_reply_def by blast
qed

lemma session_sound:
  assumes "cfg_rdap_retries c \<le> 35" and "\<forall>e \<in> set events. jobs_match X e" and "good c E X st"
    and "session c E X encode events st = (replies, st1)"
  shows "good c E X st1 \<and> (\<forall>(call, r) \<in> set replies. sound_reply c E X call r)"
  using assms(2-4)
proof (induction events arbitrary: st replies st1)
  case (Cons event events)
  show ?case
  proof (cases event)
    case Purged
    with Cons.IH [OF _ purge_good [OF Cons.prems(2)]] Cons.prems show ?thesis by simp
  next
    case (ToolCalled schedule join jobs call)
    obtain r st2 where r: "handle_tool c E X encode schedule join jobs call st = (r, st2)" by (metis surj_pair)
    obtain rs st3 where rs: "session c E X encode events st2 = (rs, st3)" by (metis surj_pair)
    have match: "jobs_match X (ToolCalled schedule join jobs call)" using Cons.prems(1) ToolCalled by simp
    from handle_tool_sound [OF Cons.prems(2) assms(1) match r]
    have "good c E X st2" "sound_reply c E X call r" by simp_all
    with Cons.IH [OF _ this(1) rs] Cons.prems(1,3) r rs ToolCalled show ?thesis by auto
  qed
qed simp

section \<open>Properties\<close>

text \<open>
  C2: from the start of the program, through any sequence of tool calls and cache purges: no call panics,
  a call whose input is there and within the limits is answered, every answer \<open>available\<close> in an output is
  confirmed by RDAP or WHOIS, and details that say \<open>not registered\<close> come from a check whose verdict was
  \<open>available\<close>.
\<close>

theorem session_available_confirmed:
  assumes "cfg_rdap_retries c \<le> 35" and "\<forall>e \<in> set events. jobs_match X e"
    and "(call, r) \<in> set (fst (session c E X encode events (start_state c X embedded w)))"
  shows "sound_reply c E X call r"
proof -
  obtain replies st1 where "session c E X encode events (start_state c X embedded w) = (replies, st1)" by (metis surj_pair)
  with session_sound [OF assms(1,2) good_start this] assms(3) show ?thesis by auto
qed

theorem session_available_confirmed_witness:
  "\<exists>text out. snd (hd (fst (session sample_config script_env plain_externals (\<lambda>_. None)
      [Purged, ToolCalled [] False [] (CheckDomainInput ''shop.example.com'' True)]
      (start_state sample_config plain_externals [] idle_script)))) = Ok (text, out) \<and>
    (\<forall>q \<in> set (output_checks out). cr_availability q = AvailabilityAvailable \<longrightarrow> confirmed q)"
proof -
  let ?call = "CheckDomainInput ''shop.example.com'' True"
  let ?events = "[Purged, ToolCalled [] False [] ?call]"
  let ?go = "fst (session sample_config script_env plain_externals (\<lambda>_. None) ?events (start_state sample_config plain_externals [] idle_script))"
  obtain r where go: "?go = [(?call, r)]" by (simp add: case_prod_beta)
  have "sound_reply sample_config script_env plain_externals ?call r"
    by (rule session_available_confirmed [where events = ?events and encode = "\<lambda>_. None" and embedded = "[]" and w = idle_script])
       (use go in \<open>simp_all add: sample_config_def batch_inputs_def\<close>)
  with go show ?thesis by (auto simp: sound_reply_def)
qed

end
